theory Spec2Isabelle
  imports Complex_Main "HOL-Library.AList" "HOL-Library.Sublist"
begin

section \<open>PCprophet: the complex feature-generation engine (generate_features.py)\<close>

text \<open>
  The development follows \<^verbatim>\<open>PCprophet/generate_features.py\<close>. Python integers are
  \<^typ>\<open>int\<close>, Python floats are read as \<^typ>\<open>real\<close> (no rounding), and every
  exception the modelled code can raise is a value of the type \<open>error\<close>, returned on the
  left of a sum. The decorator \<^verbatim>\<open>io.timeit\<close> only measures time: a decorated function
  returns what its body returns.
\<close>

subsection \<open>Values and errors\<close>

datatype error = IndexError | TypeError | ValueError | KeyError | RuntimeError

text \<open>
  The values that occur as elements of the peak lists and of the consensus mapping: a Python
  int, \<^verbatim>\<open>None\<close> (appended by \<^verbatim>\<open>min_sd\<close> when a row has no entry at the chosen
  column) and \<^verbatim>\<open>np.nan\<close> (stored by \<^verbatim>\<open>align_peaks\<close> for a complex without peaks).
\<close>

datatype pyval = PyInt int | PyNone | PyNaN

subsection \<open>Tier 2: the best-first search\<close>

text \<open>
  \<^verbatim>\<open>minimize(solution)\<close>: the outer loop takes each element in turn, the inner loop adds
  its absolute difference to every later element.
\<close>

fun minimize :: "int list \<Rightarrow> int" where
  "minimize [] = 0"
| "minimize (number1 # rest) = (\<Sum>number2 \<leftarrow> rest. \<bar>number1 - number2\<bar>) + minimize rest"

text \<open>
  \<^verbatim>\<open>add_top(result, item)\<close>: walk past the entries of strictly smaller cost and insert
  the item there. An entry is the pair of a partial solution and its cost.
\<close>

type_synonym entry = "int list \<times> int"

fun add_top :: "entry list \<Rightarrow> entry \<Rightarrow> entry list" where
  "add_top [] item = [item]"
| "add_top (r # result) item =
     (if snd r < snd item then r # add_top result item else item # r # result)"

text \<open>
  The number of search-tree nodes below (and including) a partial solution whose remaining
  members have the peak lists \<open>rest\<close>; it is only used to show that the loop of
  \<^verbatim>\<open>shortest_path\<close> ends whatever the budget is.
\<close>

fun subtree :: "int list list \<Rightarrow> nat" where
  "subtree [] = 1"
| "subtree (xs # rest) = 1 + length xs * subtree rest"

definition weight :: "int list list \<Rightarrow> entry list \<Rightarrow> nat" where
  "weight aoa result = (\<Sum>e \<leftarrow> result. subtree (drop (length (fst e)) aoa))"

text \<open>
  The \<^verbatim>\<open>for peak in aoa[len(sol[0])]\<close> loop: each peak extends a copy of the popped
  solution, the copy is costed with \<^verbatim>\<open>minimize\<close> and inserted with \<^verbatim>\<open>add_top\<close>.
\<close>

definition expand :: "int list \<Rightarrow> int list \<Rightarrow> entry list \<Rightarrow> entry list" where
  "expand sol peaks result =
     fold (\<lambda>peak res. add_top res (sol @ [peak], minimize (sol @ [peak]))) peaks result"

lemma weight_add_top:
  "weight aoa (add_top result item) = weight aoa result + subtree (drop (length (fst item)) aoa)"
  by (induction result) (auto simp: weight_def)

lemma weight_extend:
  "weight aoa (expand sol peaks result) =
     weight aoa result + length peaks * subtree (drop (Suc (length sol)) aoa)"
  unfolding expand_def
  by (induction peaks arbitrary: result) (auto simp: weight_add_top)

text \<open>
  The \<^verbatim>\<open>while True\<close> loop of \<^verbatim>\<open>shortest_path\<close>, on the loop state (the counter
  \<^verbatim>\<open>trial\<close> and the frontier \<^verbatim>\<open>result\<close>). It returns the value of \<^verbatim>\<open>trial\<close>
  when the loop is left together with what the function returns: \<^verbatim>\<open>None\<close> when the
  budget is reached, the popped solution when it is complete. \<^verbatim>\<open>result.pop(0)\<close> raises
  IndexError on an empty frontier, and so does \<^verbatim>\<open>aoa[len(sol[0])]\<close> out of range.
\<close>

function sp_loop ::
  "int list list \<Rightarrow> int \<Rightarrow> int \<Rightarrow> entry list \<Rightarrow> int \<times> (error + int list option)" where
  "sp_loop aoa max_trial trial result =
     (if trial = max_trial then (trial, Inr None)
      else (case result of
              [] \<Rightarrow> (trial + 1, Inl IndexError)
            | sol # rest \<Rightarrow>
                if length (fst sol) = length aoa then (trial + 1, Inr (Some (fst sol)))
                else if length aoa < length (fst sol) then (trial + 1, Inl IndexError)
                else sp_loop aoa max_trial (trial + 1)
                       (expand (fst sol) (aoa ! length (fst sol)) rest)))"
  by pat_completeness auto
termination
proof (relation "measure (\<lambda>(aoa, max_trial, trial, result). weight aoa result)", goal_cases)
  case 1
  show ?case by simp
next
  case (2 aoa max_trial trial result sol rest)
  then have l: "length (fst sol) < length aoa" by simp
  have "drop (length (fst sol)) aoa = aoa ! length (fst sol) # drop (Suc (length (fst sol))) aoa"
    using l by (simp add: Cons_nth_drop_Suc)
  then show ?case
    using 2 by (simp add: weight_extend) (simp add: weight_def)
qed

declare sp_loop.simps [simp del]

text \<open>
  \<^verbatim>\<open>shortest_path(aoa, max_trial=5000)\<close>: the frontier starts with one entry of cost 0
  for each peak of the first member (\<^verbatim>\<open>aoa[0]\<close> raises IndexError when there is no
  member), and \<^verbatim>\<open>trial\<close> starts at 1.
\<close>

definition sp_run :: "int list list \<Rightarrow> int \<Rightarrow> int \<times> (error + int list option)" where
  "sp_run aoa max_trial =
     (case aoa of
        [] \<Rightarrow> (1, Inl IndexError)
      | a0 # _ \<Rightarrow> sp_loop aoa max_trial 1 (map (\<lambda>x. ([x], 0)) a0))"

definition shortest_path :: "int list list \<Rightarrow> int \<Rightarrow> error + int list option" where
  "shortest_path aoa max_trial = snd (sp_run aoa max_trial)"

subsection \<open>Tier 3: the minimum-deviation column\<close>

text \<open>
  The inner \<^verbatim>\<open>while len(short) < ln\<close> loop of \<^verbatim>\<open>min_sd\<close>: \<^verbatim>\<open>x[:ln]\<close> copies the
  row, which is then padded with its last element up to length \<open>ln'\<close> (the source's \<^verbatim>\<open>ln\<close>); on an empty row
  \<^verbatim>\<open>short[-1]\<close> raises IndexError, which is caught and leaves the row empty.
\<close>

definition pad :: "nat \<Rightarrow> int list \<Rightarrow> int list" where
  "pad ln' x =
     (let short = take ln' x
      in if short = [] then [] else short @ replicate (ln' - length short) (last short))"

text \<open>
  A cell of the data frame \<^verbatim>\<open>pd.DataFrame(rf_pk2)\<close>, and the read \<^verbatim>\<open>mx_indx[sd]\<close>
  of the last loop: the entry of the row when it has one; the data frame has a missing
  value there, and the last loop appends \<^verbatim>\<open>None\<close> on the IndexError.
\<close>

definition cell :: "int list \<Rightarrow> nat \<Rightarrow> pyval" where
  "cell row j = (if j < length row then PyInt (row ! j) else PyNone)"

text \<open>\<^verbatim>\<open>sd.index(min(sd))\<close> on a non-empty list: the first position of the least value.\<close>

definition index_min :: "'a::linorder list \<Rightarrow> nat" where
  "index_min sd = length (takeWhile (\<lambda>v. v \<noteq> Min (set sd)) sd)"

text \<open>
  \<^verbatim>\<open>min_sd(aoa)\<close>. The peak lists hold ints, so the filter \<^verbatim>\<open>x is not None\<close> keeps
  every element. \<^verbatim>\<open>max\<close> of no lengths raises ValueError, which is not caught; the
  ValueError of \<^verbatim>\<open>min(sd)\<close> on a frame without columns is caught and gives \<^verbatim>\<open>None\<close>.
  The sample standard deviation \<^verbatim>\<open>np.std(col, ddof=1)\<close> is floating-point arithmetic
  of numpy: it is the parameter \<open>std\<close>, from a column to a linearly ordered type, and
  everything proved below holds whatever it computes.
\<close>

definition min_sd :: "(pyval list \<Rightarrow> 'a::linorder) \<Rightarrow> int list list \<Rightarrow> error + pyval list option" where
  "min_sd std aoa =
     (let rf_pk = aoa
      in if rf_pk = [] then Inl ValueError
         else
           let ln' = Max (set (map length rf_pk));
               rf_pk2 = map (pad ln') rf_pk;
               sd = map (\<lambda>j. std (map (\<lambda>row. cell row j) rf_pk2)) [0..<ln']
           in if sd = [] then Inr None
              else Inr (Some (map (\<lambda>mx_indx. cell mx_indx (index_min sd)) rf_pk2)))"

subsection \<open>The aligner\<close>

text \<open>
  \<^verbatim>\<open>set.intersection(*map(set, aoa))\<close>: the intersection of the members' peak sets, from
  left to right; with no member the call has no argument and raises TypeError.
\<close>

definition candidate :: "int list list \<Rightarrow> error + int set" where
  "candidate aoa =
     (case aoa of
        [] \<Rightarrow> Inl TypeError
      | a # rest \<Rightarrow> Inr (fold (\<lambda>x s. s \<inter> set x) rest (set a)))"

text \<open>
  \<^verbatim>\<open>alligner(aoa)\<close>, with the two functions it calls in its last branch as arguments
  \<open>sp\<close> and \<open>msd\<close>, so that a result can be shown not to depend on them. \<^verbatim>\<open>if pks\<close>
  holds for a list that is neither \<^verbatim>\<open>None\<close> nor empty.
\<close>

definition alligner_with ::
  "(int list list \<Rightarrow> error + int list option) \<Rightarrow> (int list list \<Rightarrow> error + pyval list option)
     \<Rightarrow> int list list \<Rightarrow> error + pyval list option" where
  "alligner_with sp msd aoa =
     (if \<exists>x \<in> set aoa. x = [] then Inr None
      else (case candidate aoa of
              Inl e \<Rightarrow> Inl e
            | Inr cand \<Rightarrow>
                if cand \<noteq> {} then Inr (Some (replicate (length aoa) (PyInt (Max cand))))
                else (case sp aoa of
                        Inl e \<Rightarrow> Inl e
                      | Inr pks \<Rightarrow>
                          if pks \<noteq> None \<and> pks \<noteq> Some [] then Inr (map_option (map PyInt) pks)
                          else msd aoa)))"

text \<open>\<^verbatim>\<open>alligner\<close> calls \<^verbatim>\<open>shortest_path(aoa)\<close>, with the default budget, and \<^verbatim>\<open>min_sd(aoa)\<close>.\<close>

definition alligner :: "(pyval list \<Rightarrow> 'a::linorder) \<Rightarrow> int list list \<Rightarrow> error + pyval list option" where
  "alligner std aoa = alligner_with (\<lambda>a. shortest_path a 5000) (min_sd std) aoa"

text \<open>
  The brute-force reference for tier 2, in the spec's words and independent of the code's
  \<^verbatim>\<open>minimize\<close>: the sum of the absolute differences over all pairs of positions
  \<open>i < j\<close> of a selection, every way to pick one peak per member, and the least such sum
  among them.
\<close>

definition pair_cost :: "int list \<Rightarrow> int" where
  "pair_cost s = (\<Sum>i \<leftarrow> [0..<length s]. \<Sum>j \<leftarrow> [Suc i..<length s]. \<bar>s ! i - s ! j\<bar>)"

definition selections :: "int list list \<Rightarrow> int list list" where
  "selections aoa = product_lists aoa"

definition brute_force_min :: "int list list \<Rightarrow> int" where
  "brute_force_min aoa = Min (pair_cost ` set (selections aoa))"

text \<open>
  An instance for the parameter \<open>std\<close>, used only where a closed example needs one: the sum
  of squared deviations of the ints of a column, scaled by their number, in exact integer
  arithmetic. It is not numpy's floating-point \<^verbatim>\<open>np.std\<close> and may order two columns
  differently; no statement below depends on the column it selects.
\<close>

fun ints_of :: "pyval list \<Rightarrow> int list" where
  "ints_of [] = []"
| "ints_of (PyInt i # vs) = i # ints_of vs"
| "ints_of (_ # vs) = ints_of vs"

definition sq_dev :: "pyval list \<Rightarrow> int" where
  "sq_dev col =
     (let xs = ints_of col
      in int (length xs) * (\<Sum>x \<leftarrow> xs. x * x) - (\<Sum>x \<leftarrow> xs. x) * (\<Sum>x \<leftarrow> xs. x))"

subsection \<open>Notions used to state and prove the properties of the search\<close>

text \<open>
  \<^verbatim>\<open>trial\<close> starts at 1 and is incremented just before each \<^verbatim>\<open>result.pop(0)\<close>, so
  the number of entries popped from the frontier (the expansions of the search) is the final
  value of \<^verbatim>\<open>trial\<close> minus one.
\<close>

definition trials :: "int list list \<Rightarrow> int \<Rightarrow> int" where
  "trials aoa max_trial = fst (sp_run aoa max_trial) - 1"

text \<open>A partial solution picks, for each of the first members, one of that member's peaks.\<close>

definition partial_sel :: "int list list \<Rightarrow> int list \<Rightarrow> bool" where
  "partial_sel aoa p \<longleftrightarrow> list_all2 (\<lambda>v xs. v \<in> set xs) p (take (length p) aoa)"

text \<open>
  The invariant of the frontier: every entry is a partial solution carrying its own cost, the
  entries are in ascending order of cost, and every complete selection extends some entry.
\<close>

definition frontier_ok :: "int list list \<Rightarrow> entry list \<Rightarrow> bool" where
  "frontier_ok aoa result \<longleftrightarrow>
     (\<forall>e \<in> set result. partial_sel aoa (fst e) \<and> snd e = minimize (fst e)) \<and>
     sorted (map snd result) \<and>
     (\<forall>s \<in> set (selections aoa). \<exists>e \<in> set result. prefix (fst e) s)"

text \<open>
  One turn of the loop that does not leave it: the head of the frontier is popped and, being
  incomplete, replaced by its extensions (the \<^verbatim>\<open>for peak\<close> loop).
\<close>

definition pop_expand :: "int list list \<Rightarrow> entry list \<Rightarrow> entry list" where
  "pop_expand aoa result =
     (case result of
        [] \<Rightarrow> []
      | sol # rest \<Rightarrow>
          if length (fst sol) < length aoa then expand (fst sol) (aoa ! length (fst sol)) rest
          else rest)"

text \<open>
  The frontier after \<open>k\<close> such turns, starting from the one entry per peak of the first
  member; the solution that the next \<^verbatim>\<open>result.pop(0)\<close> takes from it; and whether that
  solution is complete (one peak per member).
\<close>

definition frontier :: "int list list \<Rightarrow> nat \<Rightarrow> entry list" where
  "frontier aoa k =
     (pop_expand aoa ^^ k) (case aoa of [] \<Rightarrow> [] | a0 # _ \<Rightarrow> map (\<lambda>x. ([x], 0)) a0)"

definition popped :: "int list list \<Rightarrow> nat \<Rightarrow> int list option" where
  "popped aoa k = (case frontier aoa k of [] \<Rightarrow> None | sol # _ \<Rightarrow> Some (fst sol))"

definition complete_at :: "int list list \<Rightarrow> nat \<Rightarrow> bool" where
  "complete_at aoa k = (case popped aoa k of None \<Rightarrow> False | Some s \<Rightarrow> length s = length aoa)"

definition complete_hd :: "int list list \<Rightarrow> entry list \<Rightarrow> bool" where
  "complete_hd aoa result =
     (case result of [] \<Rightarrow> False | sol # _ \<Rightarrow> length (fst sol) = length aoa)"

subsection \<open>ProteinProfile\<close>

record ProteinProfile =
  acc :: string
  inten :: "real list"
  peaks :: "int list"

text \<open>
  \<^verbatim>\<open>ProteinProfile.__init__(acc, inten)\<close>; the intensities are taken as the numbers that
  \<^verbatim>\<open>float(x)\<close> yields. The attribute \<^verbatim>\<open>peaks\<close> is a Python list, empty at first.
\<close>

definition ProteinProfile_init :: "string \<Rightarrow> real list \<Rightarrow> ProteinProfile" where
  "ProteinProfile_init a i = \<lparr>acc = a, inten = i, peaks = []\<rparr>"

text \<open>\<^verbatim>\<open>int(x)\<close> on a number: truncation towards zero.\<close>

definition py_int :: "real \<Rightarrow> int" where
  "py_int x = (if 0 \<le> x then \<lfloor>x\<rfloor> else \<lceil>x\<rceil>)"

text \<open>
  \<^verbatim>\<open>calc_peaks\<close>. The peak detector \<^verbatim>\<open>st.peak_picking\<close> is an external collaborator:
  the parameter \<open>peak_picking\<close> stands for the first component of what it returns, the
  sequence of fraction indices.
\<close>

definition calc_peaks :: "(real list \<Rightarrow> real list) \<Rightarrow> ProteinProfile \<Rightarrow> ProteinProfile" where
  "calc_peaks peak_picking self =
     (let pks = peak_picking (inten self) in self\<lparr>peaks := map py_int pks\<rparr>)"

text \<open>A detector that reports the index 3 twice, to see what \<^verbatim>\<open>calc_peaks\<close> stores then.\<close>

definition twice_three :: "real list \<Rightarrow> real list" where
  "twice_three i = [3, 3]"

subsection \<open>ComplexProfile\<close>

text \<open>
  Python dictionaries keep their keys in insertion order, and assigning to a key that is
  present keeps its place: an association list with \<^const>\<open>AList.update\<close>.
  \<open>dict_update d kvs\<close> is \<^verbatim>\<open>d.update(kvs)\<close>, \<open>dict kvs\<close> is \<^verbatim>\<open>dict(kvs)\<close>.
\<close>

definition dict_update :: "('k \<times> 'v) list \<Rightarrow> ('k \<times> 'v) list \<Rightarrow> ('k \<times> 'v) list" where
  "dict_update d kvs = fold (\<lambda>(k, v). AList.update k v) kvs d"

definition dict :: "('k \<times> 'v) list \<Rightarrow> ('k \<times> 'v) list" where
  "dict kvs = dict_update [] kvs"

text \<open>A float of numpy that may be \<^verbatim>\<open>nan\<close>.\<close>

datatype flt = Flt real | NaN

text \<open>
  The attributes set by \<^verbatim>\<open>ComplexProfile.__init__\<close>. An entry of \<^verbatim>\<open>pks\<close> is the text
  \<^verbatim>\<open>raw peaks joined by #, tab, consensus peak\<close>; it is kept as the pair of the values that
  are printed (the raw peaks, or the imputed value alone, and the consensus peak).
  \<^verbatim>\<open>width\<close> is \<open>None\<close> until \<^verbatim>\<open>calc_width\<close> stores a number.
\<close>

record ComplexProfile =
  name :: string
  goscore :: real
  members :: "ProteinProfile list"
  pks :: "(string \<times> pyval list \<times> pyval) list"
  width :: "flt option"
  shifts :: "real list"
  cor :: "flt list list"
  diff :: "real list list"
  pks_ali :: "(string \<times> pyval) list"

definition ComplexProfile_init :: "string \<Rightarrow> ComplexProfile" where
  "ComplexProfile_init n =
     \<lparr>name = n, goscore = 0, members = [], pks = [], width = None, shifts = [], cor = [],
      diff = [], pks_ali = []\<rparr>"

definition test_complex :: "ComplexProfile \<Rightarrow> bool" where
  "test_complex self =
     (if length (members self) < 2 \<or> length (members self) > 100 then False else True)"

definition add_member :: "ComplexProfile \<Rightarrow> ProteinProfile \<Rightarrow> ComplexProfile" where
  "add_member self prot = self\<lparr>members := members self @ [prot]\<rparr>"

definition get_members :: "ComplexProfile \<Rightarrow> string list" where
  "get_members self = map acc (members self)"

text \<open>
  \<^verbatim>\<open>round(x)\<close> of Python 3 on a float: the nearest integer, a tie going to the even one.
\<close>

definition py_round :: "real \<Rightarrow> int" where
  "py_round x =
     (let f = \<lfloor>x\<rfloor>; d = x - of_int f
      in if d < 1 / 2 then f else if 1 / 2 < d then f + 1 else if even f then f else f + 1)"

text \<open>
  The last loop of \<^verbatim>\<open>align_peaks\<close>, over the members: \<^verbatim>\<open>self.pks_ali[k.get_acc()]\<close>
  raises KeyError for an accession that the mapping lacks; \<open>out\<close> is \<^verbatim>\<open>self.pks\<close>.
\<close>

fun pks_loop ::
  "(string \<times> pyval) list \<Rightarrow> ProteinProfile list \<Rightarrow> (string \<times> pyval list \<times> pyval) list
     \<Rightarrow> error + (string \<times> pyval list \<times> pyval) list" where
  "pks_loop ali [] out = Inr out"
| "pks_loop ali (k # ks) out =
     (case map_of ali (acc k) of
        None \<Rightarrow> Inl KeyError
      | Some sel \<Rightarrow>
          pks_loop ali ks
            (AList.update (acc k) (if peaks k \<noteq> [] then map PyInt (peaks k) else [sel], sel) out))"

text \<open>
  \<^verbatim>\<open>align_peaks\<close>, returning the updated object and the returned value (\<^verbatim>\<open>None\<close> or
  \<^verbatim>\<open>True\<close>). The helper \<^verbatim>\<open>st.medi\<close> is not part of the sources at hand: it is the
  parameter \<open>medi\<close>. With \<^verbatim>\<open>ali_pk = None\<close> the call \<^verbatim>\<open>zip(mb_pres, ali_pk)\<close> raises
  TypeError, if \<^verbatim>\<open>st.medi(None)\<close> has not raised before.
\<close>

definition align_peaks ::
  "(pyval list \<Rightarrow> 'a::linorder) \<Rightarrow> (pyval list \<Rightarrow> error + real) \<Rightarrow> ComplexProfile
     \<Rightarrow> error + ComplexProfile \<times> bool option" where
  "align_peaks std medi self =
     (let pk = map peaks (members self);
          idx_missing = filter (\<lambda>i. pk ! i = []) [0..<length pk];
          nan_members = map (\<lambda>i. get_members self ! i) idx_missing;
          pres = filter (\<lambda>x. x \<noteq> []) pk;
          mb_pres = filter (\<lambda>x. x \<notin> set nan_members) (get_members self)
      in if nan_members = get_members self
         then Inr (self\<lparr>pks_ali := dict (zip nan_members (replicate (length nan_members) PyNaN))\<rparr>,
                   None)
         else (case alligner std pres of
                 Inl e \<Rightarrow> Inl e
               | Inr None \<Rightarrow> Inl TypeError
               | Inr (Some ali_pk) \<Rightarrow>
                   (case medi ali_pk of
                      Inl e \<Rightarrow> Inl e
                    | Inr m \<Rightarrow>
                        let md = py_round m;
                            ali = dict_update
                                    (dict (zip nan_members
                                       (replicate (length nan_members) (PyInt md))))
                                    (dict (zip mb_pres ali_pk))
                        in (case pks_loop ali (members self) (pks self) of
                              Inl e \<Rightarrow> Inl e
                            | Inr pks' \<Rightarrow> Inr (self\<lparr>pks_ali := ali, pks := pks'\<rparr>, Some True)))))"

text \<open>
  Modelled from the spec: \<^verbatim>\<open>st.medi\<close> (module \<^verbatim>\<open>stats_\<close>), which the spec and the
  comment at its call describe as the median of the aligned peaks. It is used to instantiate
  the parameter \<open>medi\<close>: the middle element of the sorted values, or the mean of the two
  middle ones; it fails on a value that is not a number and on no values.
\<close>

definition median :: "pyval list \<Rightarrow> error + real" where
  "median vs =
     (if length (ints_of vs) < length vs then Inl TypeError
      else if vs = [] then Inl ValueError
      else
        let s = sort (ints_of vs); n = length s
        in if odd n then Inr (of_int (s ! (n div 2)))
           else Inr ((of_int (s ! (n div 2 - 1)) + of_int (s ! (n div 2))) / 2))"

text \<open>
  The duplicate test of \<^verbatim>\<open>format_hash\<close>: the driver adds a protein to a complex only
  when no member has its accession yet (\<^verbatim>\<open>if acc in tmp.get_members(): continue\<close>). The
  row is taken after splitting: the accessions of \<^verbatim>\<open>MB\<close> and the intensity vectors of
  \<^verbatim>\<open>FT\<close>; \<^verbatim>\<open>inten[idx]\<close> raises IndexError when \<^verbatim>\<open>FT\<close> is shorter than \<^verbatim>\<open>MB\<close>.
\<close>

fun format_loop ::
  "(real list \<Rightarrow> real list) \<Rightarrow> real list list \<Rightarrow> (nat \<times> string) list \<Rightarrow> ComplexProfile
     \<Rightarrow> error + ComplexProfile" where
  "format_loop peak_picking ft [] tmp = Inr tmp"
| "format_loop peak_picking ft ((idx, a) # rest) tmp =
     (if a \<in> set (get_members tmp) then format_loop peak_picking ft rest tmp
      else if length ft \<le> idx then Inl IndexError
      else format_loop peak_picking ft rest
             (add_member tmp (calc_peaks peak_picking (ProteinProfile_init a (ft ! idx)))))"

definition format_hash ::
  "(real list \<Rightarrow> real list) \<Rightarrow> string \<Rightarrow> string list \<Rightarrow> real list list \<Rightarrow> error + ComplexProfile" where
  "format_hash peak_picking ident mb ft =
     format_loop peak_picking ft (zip [0..<length mb] mb) (ComplexProfile_init ident)"

text \<open>
  \<^verbatim>\<open>gen_feat\<close>. The test and the alignment it calls are the arguments \<open>tc\<close> and \<open>ap\<close>, so
  that a result can be shown not to depend on them. What follows the guard
  (\<^verbatim>\<open>calc_go_score\<close>, \<^verbatim>\<open>calc_width\<close>, \<^verbatim>\<open>pairwise\<close>, \<^verbatim>\<open>create_row\<close> and
  \<^verbatim>\<open>get_peaks\<close>, which need the external GO scorer and print floats) is the parameter
  \<open>stage\<close>, which yields the feature row and the peak rows. The result \<open>None\<close> is the pair
  \<^verbatim>\<open>(None, None)\<close> of the \<^verbatim>\<open>else\<close> branch: no feature row and no peak rows.
  \<^verbatim>\<open>a and b\<close> evaluates \<open>b\<close> only when \<open>a\<close> holds.
\<close>

definition gen_feat_with ::
  "(ComplexProfile \<Rightarrow> bool) \<Rightarrow> (ComplexProfile \<Rightarrow> error + ComplexProfile \<times> bool option)
     \<Rightarrow> (ComplexProfile \<Rightarrow> error + ComplexProfile \<times> 'r) \<Rightarrow> ComplexProfile
     \<Rightarrow> error + ComplexProfile \<times> 'r option" where
  "gen_feat_with tc ap stage cmplx =
     (if tc cmplx
      then (case ap cmplx of
              Inl e \<Rightarrow> Inl e
            | Inr (cmplx', aligned) \<Rightarrow>
                if aligned = Some True
                then (case stage cmplx' of
                        Inl e \<Rightarrow> Inl e
                      | Inr (cmplx'', rows) \<Rightarrow> Inr (cmplx'', Some rows))
                else Inr (cmplx', None))
      else Inr (cmplx, None))"

definition gen_feat ::
  "(pyval list \<Rightarrow> 'a::linorder) \<Rightarrow> (pyval list \<Rightarrow> error + real)
     \<Rightarrow> (ComplexProfile \<Rightarrow> error + ComplexProfile \<times> 'r) \<Rightarrow> ComplexProfile
     \<Rightarrow> error + ComplexProfile \<times> 'r option" where
  "gen_feat std medi stage cmplx = gen_feat_with test_complex (align_peaks std medi) stage cmplx"


subsection \<open>Pairwise correlation and peak width\<close>

text \<open>
  The slice \<^verbatim>\<open>xs[i:j]\<close> of a list or a one-dimensional array: a negative bound counts
  from the end, and both bounds are clipped to the length.
\<close>

definition py_slice :: "'a list \<Rightarrow> int \<Rightarrow> int \<Rightarrow> 'a list" where
  "py_slice xs i j =
     (let n = int (length xs);
          lo = (if i < 0 then max (n + i) 0 else min i n);
          hi = (if j < 0 then max (n + j) 0 else min j n)
      in take (nat (hi - lo)) (drop (nat lo) xs))"

text \<open>
  \<^verbatim>\<open>scipy.ndimage.uniform_filter\<close> on a one-dimensional array is a function of the SciPy
  library, not of the repository. It is written here after SciPy's documentation: the mean
  over a window of \<open>W\<close> positions that starts \<^verbatim>\<open>W // 2\<close> positions before the current
  one, the array being continued by reflection at its ends (mode \<^verbatim>\<open>reflect\<close>); the result
  is as long as the input, and a size below 1 is refused with a RuntimeError. The properties
  below use only the length of its result.
\<close>

definition reflect :: "nat \<Rightarrow> int \<Rightarrow> nat" where
  "reflect n k =
     (let r = k mod (2 * int n) in if r < int n then nat r else nat (2 * int n - 1 - r))"

definition uniform_filter :: "real list \<Rightarrow> int \<Rightarrow> error + real list" where
  "uniform_filter a W =
     (if W < 1 then Inl RuntimeError
      else Inr (map (\<lambda>i. (\<Sum>k \<leftarrow> [0..<nat W]. a ! reflect (length a) (int i - W div 2 + int k))
                          / of_int W)
                  [0..<length a]))"

text \<open>
  The division \<^verbatim>\<open>D / np.sqrt(ssAs * ssBs)\<close> of numpy: \<^verbatim>\<open>nan\<close>, not an error, when
  the window has no variance and both sides are 0.
\<close>

definition fdiv :: "real \<Rightarrow> real \<Rightarrow> flt" where
  "fdiv x y = (if y = 0 then NaN else Flt (x / y))"

text \<open>
  The vector that \<^verbatim>\<open>calc_corr(pairs, W=10)\<close> appends to \<^verbatim>\<open>self.cor\<close>. The filtered
  arrays are cut to \<^verbatim>\<open>[W // 2 : -W // 2 + 1]\<close>, where Python reads \<^verbatim>\<open>-W // 2\<close> as
  \<^verbatim>\<open>(-W) // 2\<close>, rounded down; \<open>dam\<close> and \<open>dbm\<close> are the masked matrices of
  differences, the three \<^verbatim>\<open>einsum\<close> calls sum their products down each column, and
  \<^verbatim>\<open>np.zeros(9) + np.nan\<close> is appended. For two vectors of different lengths the matrices
  have different shapes and \<^verbatim>\<open>einsum\<close> raises ValueError (numpy's broadcasting of a
  length of 1 is left out).
\<close>

definition corr_vector :: "real list \<Rightarrow> real list \<Rightarrow> int \<Rightarrow> error + flt list" where
  "corr_vector a b W =
     (case uniform_filter a W of
        Inl e \<Rightarrow> Inl e
      | Inr am \<Rightarrow>
          (case uniform_filter b W of
             Inl e \<Rightarrow> Inl e
           | Inr bm \<Rightarrow>
               let amc = py_slice am (W div 2) (- W div 2 + 1);
                   bmc = py_slice bm (W div 2) (- W div 2 + 1);
                   m = length a;
                   n = length amc
               in if length b \<noteq> m then Inl ValueError
                  else
                    let mask = (\<lambda>i j. j \<le> i \<and> int i < int j + W);
                        dam = (\<lambda>i j. if mask i j then a ! i - amc ! j else 0);
                        dbm = (\<lambda>i j. if mask i j then b ! i - bmc ! j else 0);
                        ssAs = map (\<lambda>j. \<Sum>i \<leftarrow> [0..<m]. dam i j * dam i j) [0..<n];
                        ssBs = map (\<lambda>j. \<Sum>i \<leftarrow> [0..<m]. dbm i j * dbm i j) [0..<n];
                        D = map (\<lambda>j. \<Sum>i \<leftarrow> [0..<m]. dam i j * dbm i j) [0..<n]
                    in Inr (map (\<lambda>j. fdiv (D ! j) (sqrt (ssAs ! j * ssBs ! j))) [0..<n]
                            @ replicate 9 NaN)))"

definition calc_corr ::
  "ComplexProfile \<Rightarrow> ProteinProfile \<times> ProteinProfile \<Rightarrow> int \<Rightarrow> error + ComplexProfile" where
  "calc_corr self pairs W =
     (case corr_vector (inten (fst pairs)) (inten (snd pairs)) W of
        Inl e \<Rightarrow> Inl e
      | Inr v \<Rightarrow> Inr (self\<lparr>cor := cor self @ [v]\<rparr>))"

text \<open>
  \<^verbatim>\<open>int(v)\<close> on a value of the consensus mapping: \<^verbatim>\<open>int(None)\<close> raises TypeError
  and \<^verbatim>\<open>int(nan)\<close> raises ValueError.
\<close>

definition int_of_pyval :: "pyval \<Rightarrow> error + int" where
  "int_of_pyval v = (case v of PyInt i \<Rightarrow> Inr i | PyNone \<Rightarrow> Inl TypeError | PyNaN \<Rightarrow> Inl ValueError)"

text \<open>
  The window of one member in \<^verbatim>\<open>calc_width\<close>: \<^verbatim>\<open>peak = int(self.pks_ali[acc])\<close>
  (KeyError for a missing accession) and \<^verbatim>\<open>prot.get_inte()[(peak - q):(peak + q)]\<close>.
\<close>

definition peak_window :: "int \<Rightarrow> (string \<times> pyval) list \<Rightarrow> ProteinProfile \<Rightarrow> error + real list" where
  "peak_window q ali prot =
     (case map_of ali (acc prot) of
        None \<Rightarrow> Inl KeyError
      | Some v \<Rightarrow>
          (case int_of_pyval v of
             Inl e \<Rightarrow> Inl e
           | Inr peak \<Rightarrow> Inr (py_slice (inten prot) (peak - q) (peak + q))))"

text \<open>
  The loop of \<^verbatim>\<open>calc_width\<close> over the members, \<open>ws\<close> being the list \<^verbatim>\<open>width\<close>. The
  helper \<^verbatim>\<open>st.fwhm\<close> is not part of the sources at hand: it is the parameter \<open>fwhm\<close>.
\<close>

fun width_loop ::
  "(real list \<Rightarrow> error + real) \<Rightarrow> int \<Rightarrow> (string \<times> pyval) list \<Rightarrow> ProteinProfile list
     \<Rightarrow> real list \<Rightarrow> error + real list" where
  "width_loop fwhm q ali [] ws = Inr ws"
| "width_loop fwhm q ali (prot # rest) ws =
     (case peak_window q ali prot of
        Inl e \<Rightarrow> Inl e
      | Inr prot_peak \<Rightarrow>
          (case fwhm prot_peak of
             Inl e \<Rightarrow> Inl e
           | Inr prot_fwhm \<Rightarrow> width_loop fwhm q ali rest (ws @ [prot_fwhm])))"

text \<open>\<^verbatim>\<open>np.mean\<close> of a list of numbers; of no numbers it is \<^verbatim>\<open>nan\<close>.\<close>

definition np_mean :: "real list \<Rightarrow> flt" where
  "np_mean xs = (if xs = [] then NaN else Flt (sum_list xs / real (length xs)))"

definition calc_width :: "(real list \<Rightarrow> error + real) \<Rightarrow> ComplexProfile \<Rightarrow> error + ComplexProfile" where
  "calc_width fwhm self =
     (let q = 5
      in case width_loop fwhm q (pks_ali self) (members self) [] of
           Inl e \<Rightarrow> Inl e
         | Inr ws \<Rightarrow> Inr (self\<lparr>width := Some (np_mean ws)\<rparr>))"

text \<open>
  The window of the spec: the intensities at the positions \<open>k\<close> of the vector with
  \<open>peak - q \<le> k < peak + q\<close>.
\<close>

definition centered_window :: "'a list \<Rightarrow> int \<Rightarrow> int \<Rightarrow> 'a list" where
  "centered_window xs peak q =
     map (\<lambda>k. xs ! k) (filter (\<lambda>k. peak - q \<le> int k \<and> int k < peak + q) [0..<length xs])"

subsection \<open>Example complexes\<close>

text \<open>
  The complex of the spec's end-to-end example (members \<open>A\<close> and \<open>B\<close> with the peaks 4
  and 5) with a third member that has no peak; the same with the peaks 5 and 6, whose median
  5.5 lies between an odd and an even integer; a complex whose members have no peak; and
  complexes of a given size.
\<close>

definition example_complex :: ComplexProfile where
  "example_complex =
     (ComplexProfile_init ''X'')
       \<lparr>members :=
          [\<lparr>acc = ''A'', inten = [0, 0, 0, 5, 0, 0], peaks = [4]\<rparr>,
           \<lparr>acc = ''B'', inten = [0, 0, 0, 0, 5, 0], peaks = [5]\<rparr>,
           \<lparr>acc = ''C'', inten = [0, 0, 0, 0, 0, 0], peaks = []\<rparr>]\<rparr>"

definition tie_complex :: ComplexProfile where
  "tie_complex =
     (ComplexProfile_init ''T'')
       \<lparr>members :=
          [\<lparr>acc = ''A'', inten = [0, 0, 0, 0, 5, 0], peaks = [5]\<rparr>,
           \<lparr>acc = ''B'', inten = [0, 0, 0, 0, 0, 5], peaks = [6]\<rparr>,
           \<lparr>acc = ''C'', inten = [0, 0, 0, 0, 0, 0], peaks = []\<rparr>]\<rparr>"

definition peakless_complex :: ComplexProfile where
  "peakless_complex =
     (ComplexProfile_init ''Y'')
       \<lparr>members :=
          [\<lparr>acc = ''A'', inten = [0, 0, 0, 0, 0, 0], peaks = []\<rparr>,
           \<lparr>acc = ''B'', inten = [0, 0, 0, 0, 0, 0], peaks = []\<rparr>]\<rparr>"

definition sized_complex :: "nat \<Rightarrow> ComplexProfile" where
  "sized_complex n =
     (ComplexProfile_init ''Z'')
       \<lparr>members := map (\<lambda>i. ProteinProfile_init (replicate (Suc i) CHR ''A'') []) [0..<n]\<rparr>"

text \<open>
  An intensity vector over the 72 fractions; a stand-in for \<^verbatim>\<open>st.fwhm\<close> that reports
  the length of the window it is given; and an aligned complex with a consensus peak at
  fraction 3 and one at fraction 40.
\<close>

definition fractions :: "real list" where
  "fractions = map of_int [1..72]"

definition window_length :: "real list \<Rightarrow> error + real" where
  "window_length xs = Inr (real (length xs))"

definition early_complex :: ComplexProfile where
  "early_complex =
     (ComplexProfile_init ''E'')
       \<lparr>members := [\<lparr>acc = ''A'', inten = fractions, peaks = [3]\<rparr>,
                    \<lparr>acc = ''B'', inten = fractions, peaks = [40]\<rparr>],
        pks_ali := [(''A'', PyInt 3), (''B'', PyInt 40)]\<rparr>"

section \<open>Properties\<close>

subsection \<open>The aligner\<close>

lemma fold_inter: "fold (\<lambda>x s. s \<inter> set x) rest S = S \<inter> (\<Inter>x\<in>set rest. set x)"
  by (induction rest arbitrary: S) auto

lemma candidate_Inr: "candidate aoa = Inr cand \<longleftrightarrow> aoa \<noteq> [] \<and> cand = (\<Inter>x\<in>set aoa. set x)"
  by (cases aoa) (auto simp: candidate_def fold_inter)

lemma minimize_nonneg: "0 \<le> minimize s"
  by (induction s) (auto intro!: add_nonneg_nonneg sum_list_nonneg)

lemma minimize_append_le: "minimize s \<le> minimize (s @ t)"
proof (induction s)
  case Nil
  show ?case by (simp add: minimize_nonneg)
next
  case (Cons x s)
  have "0 \<le> (\<Sum>y \<leftarrow> t. \<bar>x - y\<bar>)" by (rule sum_list_nonneg) auto
  with Cons show ?case by simp
qed

lemma minimize_prefix: "prefix p s \<Longrightarrow> minimize p \<le> minimize s"
  by (auto simp: prefix_def minimize_append_le)

lemma sum_list_nth: "(\<Sum>y \<leftarrow> xs. f y) = (\<Sum>j \<leftarrow> [0..<length xs]. f (xs ! j))"
proof -
  have "map f xs = map (\<lambda>j. f (xs ! j)) [0..<length xs]"
    by (rule nth_equalityI) simp_all
  then show ?thesis by simp
qed

lemma pair_cost_Cons:
  "pair_cost (x # xs) = (\<Sum>y \<leftarrow> xs. \<bar>x - y\<bar>) + pair_cost xs"
proof -
  have upt: "[0..<Suc (length xs)] = 0 # map Suc [0..<length xs]"
    by (simp add: upt_conv_Cons map_Suc_upt del: upt_Suc)
  have inner: "[Suc (Suc i)..<Suc (length xs)] = map Suc [Suc i..<length xs]" for i
    by (simp add: map_Suc_upt del: upt_Suc)
  have first: "[Suc 0..<Suc (length xs)] = map Suc [0..<length xs]"
    by (simp add: map_Suc_upt del: upt_Suc)
  have "pair_cost (x # xs) =
      (\<Sum>j \<leftarrow> [Suc 0..<Suc (length xs)]. \<bar>x - (x # xs) ! j\<bar>)
      + (\<Sum>i \<leftarrow> map Suc [0..<length xs]. \<Sum>j \<leftarrow> [Suc i..<Suc (length xs)]. \<bar>(x # xs) ! i - (x # xs) ! j\<bar>)"
    unfolding pair_cost_def by (simp add: upt del: upt_Suc)
  also have "\<dots> = (\<Sum>j \<leftarrow> [0..<length xs]. \<bar>x - xs ! j\<bar>)
      + (\<Sum>i \<leftarrow> [0..<length xs]. \<Sum>j \<leftarrow> [Suc i..<length xs]. \<bar>xs ! i - xs ! j\<bar>)"
    unfolding first by (simp add: comp_def inner del: upt_Suc)
  also have "\<dots> = (\<Sum>y \<leftarrow> xs. \<bar>x - y\<bar>) + pair_cost xs"
    unfolding pair_cost_def by (simp add: sum_list_nth [of "\<lambda>y. \<bar>x - y\<bar>" xs])
  finally show ?thesis .
qed

lemma minimize_pair_cost: "minimize s = pair_cost s"
  by (induction s) (simp_all add: pair_cost_Cons, simp add: pair_cost_def)

lemma set_add_top: "set (add_top result item) = insert item (set result)"
  by (induction result) auto

lemma sorted_add_top: "sorted (map snd result) \<Longrightarrow> sorted (map snd (add_top result item))"
  by (induction result) (auto simp: set_add_top)

lemma set_extend:
  "set (expand sol ps result) = set result \<union> (\<lambda>peak. (sol @ [peak], minimize (sol @ [peak]))) ` set ps"
  unfolding expand_def by (induction ps arbitrary: result) (auto simp: set_add_top)

lemma sorted_extend: "sorted (map snd result) \<Longrightarrow> sorted (map snd (expand sol ps result))"
  unfolding expand_def by (induction ps arbitrary: result) (auto simp: sorted_add_top)

lemma partial_sel_length: "partial_sel aoa p \<Longrightarrow> length p \<le> length aoa"
  by (auto simp: partial_sel_def dest!: list_all2_lengthD)

lemma partial_sel_complete:
  "partial_sel aoa p \<Longrightarrow> length p = length aoa \<Longrightarrow> p \<in> set (selections aoa)"
  by (simp add: partial_sel_def selections_def product_lists_set)

lemma partial_sel_snoc:
  assumes "partial_sel aoa p" "length p < length aoa" "x \<in> set (aoa ! length p)"
  shows "partial_sel aoa (p @ [x])"
  using assms
  by (auto simp: partial_sel_def take_Suc_conv_app_nth intro!: list_all2_appendI)

lemma prefix_snoc_nth:
  assumes "prefix p s" "length p < length s"
  shows "prefix (p @ [s ! length p]) s"
proof -
  from assms obtain t where s: "s = p @ t" by (auto simp: prefix_def)
  with assms have "t \<noteq> []" by auto
  then obtain y t' where "t = y # t'" by (cases t) auto
  with s show ?thesis by (simp add: prefix_def)
qed

lemma selections_nth:
  "s \<in> set (selections aoa) \<Longrightarrow> i < length aoa \<Longrightarrow> s ! i \<in> set (aoa ! i)"
  by (auto simp: selections_def product_lists_set list_all2_conv_all_nth)

lemma selections_length: "s \<in> set (selections aoa) \<Longrightarrow> length s = length aoa"
  by (auto simp: selections_def product_lists_set dest: list_all2_lengthD)

lemma frontier_ok_extend:
  assumes ok: "frontier_ok aoa (sol # rest)" and l: "length (fst sol) < length aoa"
  shows "frontier_ok aoa (expand (fst sol) (aoa ! length (fst sol)) rest)"
  unfolding frontier_ok_def
proof (intro conjI ballI)
  fix e assume "e \<in> set (expand (fst sol) (aoa ! length (fst sol)) rest)"
  then consider "e \<in> set rest"
    | x where "x \<in> set (aoa ! length (fst sol))" "e = (fst sol @ [x], minimize (fst sol @ [x]))"
    by (auto simp: set_extend)
  then show "partial_sel aoa (fst e)"
  proof cases
    case 1 with ok show ?thesis by (simp add: frontier_ok_def)
  next
    case 2
    from ok have "partial_sel aoa (fst sol)" by (simp add: frontier_ok_def)
    with 2 l show ?thesis by (simp add: partial_sel_snoc)
  qed
  from \<open>e \<in> set (expand (fst sol) (aoa ! length (fst sol)) rest)\<close> ok
  show "snd e = minimize (fst e)" by (auto simp: set_extend frontier_ok_def)
next
  from ok have "sorted (map snd rest)" by (simp add: frontier_ok_def)
  then show "sorted (map snd (expand (fst sol) (aoa ! length (fst sol)) rest))"
    by (rule sorted_extend)
next
  fix s assume s: "s \<in> set (selections aoa)"
  with ok obtain e where e: "e \<in> set (sol # rest)" "prefix (fst e) s"
    unfolding frontier_ok_def by blast
  show "\<exists>e \<in> set (expand (fst sol) (aoa ! length (fst sol)) rest). prefix (fst e) s"
  proof (cases "e = sol")
    case True
    from s l have ls: "length (fst sol) < length s" by (simp add: selections_length)
    with e True have "prefix (fst sol @ [s ! length (fst sol)]) s" by (simp add: prefix_snoc_nth)
    moreover from s l have "s ! length (fst sol) \<in> set (aoa ! length (fst sol))"
      by (rule selections_nth)
    ultimately show ?thesis by (force simp: set_extend)
  next
    case False
    with e have "e \<in> set rest" by simp
    with e show ?thesis by (auto simp: set_extend)
  qed
qed

lemma frontier_ok_head:
  assumes ok: "frontier_ok aoa (sol # rest)" and l: "length (fst sol) = length aoa"
  shows "fst sol \<in> set (selections aoa) \<and> (\<forall>s \<in> set (selections aoa). minimize (fst sol) \<le> minimize s)"
proof (intro conjI ballI)
  from ok l show "fst sol \<in> set (selections aoa)"
    by (simp add: frontier_ok_def partial_sel_complete)
next
  fix s assume "s \<in> set (selections aoa)"
  with ok obtain e where e: "e \<in> set (sol # rest)" "prefix (fst e) s"
    unfolding frontier_ok_def by blast
  from ok e have "snd sol \<le> snd e" by (auto simp: frontier_ok_def)
  moreover from ok e have "snd e = minimize (fst e)" "snd sol = minimize (fst sol)"
    by (auto simp: frontier_ok_def)
  moreover from e have "minimize (fst e) \<le> minimize s" by (simp add: minimize_prefix)
  ultimately show "minimize (fst sol) \<le> minimize s" by simp
qed

lemma frontier_ok_nonempty:
  "frontier_ok aoa result \<Longrightarrow> selections aoa \<noteq> [] \<Longrightarrow> result \<noteq> []"
  by (cases "selections aoa") (auto simp: frontier_ok_def)

lemma selections_nonempty: "\<forall>x \<in> set aoa. x \<noteq> [] \<Longrightarrow> selections aoa \<noteq> []"
  unfolding selections_def
  by (induction aoa) (auto simp: neq_Nil_conv)

lemma sp_loop_result:
  assumes "frontier_ok aoa result" "selections aoa \<noteq> []"
  shows "snd (sp_loop aoa max_trial trial result) = Inr None \<or>
         (\<exists>sol. snd (sp_loop aoa max_trial trial result) = Inr (Some sol) \<and>
            sol \<in> set (selections aoa) \<and> (\<forall>s \<in> set (selections aoa). minimize sol \<le> minimize s))"
  using assms
proof (induction aoa max_trial trial result rule: sp_loop.induct)
  case (1 aoa max_trial trial result)
  show ?case
  proof (cases "trial = max_trial")
    case True
    then show ?thesis by (simp add: sp_loop.simps)
  next
    case False
    from "1.prems" obtain sol rest where r: "result = sol # rest"
      using frontier_ok_nonempty by (cases result) auto
    from "1.prems" r have len: "length (fst sol) \<le> length aoa"
      by (simp add: frontier_ok_def partial_sel_length)
    show ?thesis
    proof (cases "length (fst sol) = length aoa")
      case True
      with "1.prems" r have "fst sol \<in> set (selections aoa) \<and> (\<forall>s \<in> set (selections aoa). minimize (fst sol) \<le> minimize s)"
        using frontier_ok_head by blast
      with False r True show ?thesis by (simp add: sp_loop.simps)
    next
      case ne: False
      with len have l: "length (fst sol) < length aoa" by simp
      with "1.prems" r have ok': "frontier_ok aoa (expand (fst sol) (aoa ! length (fst sol)) rest)"
        using frontier_ok_extend by blast
      have eq: "sp_loop aoa max_trial trial result =
            sp_loop aoa max_trial (trial + 1) (expand (fst sol) (aoa ! length (fst sol)) rest)"
        using False r ne l by (subst sp_loop.simps) simp
      from "1.IH"[OF False r ne _ ok' "1.prems"(2)] l
      show ?thesis unfolding eq by simp
    qed
  qed
qed

lemma sp_loop_trial:
  "trial \<le> max_trial \<Longrightarrow> fst (sp_loop aoa max_trial trial result) \<le> max_trial"
proof (induction aoa max_trial trial result rule: sp_loop.induct)
  case (1 aoa max_trial trial result)
  show ?case
  proof (cases "trial = max_trial")
    case True
    then show ?thesis by (simp add: sp_loop.simps)
  next
    case False
    with "1.prems" have lt: "trial + 1 \<le> max_trial" by simp
    show ?thesis
    proof (cases result)
      case Nil
      with False lt show ?thesis by (simp add: sp_loop.simps)
    next
      case (Cons sol rest)
      show ?thesis
      proof (cases "length (fst sol) = length aoa \<or> length aoa < length (fst sol)")
        case True
        with False lt Cons show ?thesis by (subst sp_loop.simps) auto
      next
        case ne: False
        have eq: "sp_loop aoa max_trial trial result =
            sp_loop aoa max_trial (trial + 1) (expand (fst sol) (aoa ! length (fst sol)) rest)"
          using False Cons ne by (subst sp_loop.simps) simp
        from "1.IH"[OF False Cons _ _ lt] ne show ?thesis unfolding eq by simp
      qed
    qed
  qed
qed

lemma frontier_ok_init: "frontier_ok (a0 # rest) (map (\<lambda>x. ([x], 0)) a0)"
  unfolding frontier_ok_def
proof (intro conjI ballI)
  fix e :: entry assume "e \<in> set (map (\<lambda>x. ([x], 0)) a0)"
  then show "partial_sel (a0 # rest) (fst e)" "snd e = minimize (fst e)"
    by (auto simp: partial_sel_def)
next
  show "sorted (map snd (map (\<lambda>x. ([x], 0::int)) a0))"
    by (induction a0) auto
next
  fix s assume "s \<in> set (selections (a0 # rest))"
  then obtain x s' where "s = x # s'" "x \<in> set a0"
    by (auto simp: selections_def)
  then show "\<exists>e \<in> set (map (\<lambda>x. ([x], 0::int)) a0). prefix (fst e) s"
    by auto
qed

lemma shortest_path_result:
  assumes "aoa \<noteq> []" "\<forall>x \<in> set aoa. x \<noteq> []"
  shows "shortest_path aoa max_trial = Inr None \<or>
         (\<exists>sol. shortest_path aoa max_trial = Inr (Some sol) \<and>
            sol \<in> set (selections aoa) \<and> (\<forall>s \<in> set (selections aoa). minimize sol \<le> minimize s))"
proof -
  from assms(1) obtain a0 rest where aoa: "aoa = a0 # rest" by (cases aoa) auto
  have "frontier_ok aoa (map (\<lambda>x. ([x], 0)) a0)" unfolding aoa by (rule frontier_ok_init)
  moreover from assms(2) have "selections aoa \<noteq> []" by (rule selections_nonempty)
  ultimately show ?thesis
    using sp_loop_result [of aoa "map (\<lambda>x. ([x], 0)) a0" max_trial 1]
    by (simp add: shortest_path_def sp_run_def aoa)
qed

lemma trials_bound:
  assumes "1 \<le> max_trial"
  shows "trials aoa max_trial < max_trial"
proof (cases aoa)
  case Nil
  with assms show ?thesis by (simp add: trials_def sp_run_def)
next
  case (Cons a0 rest)
  from assms have "fst (sp_loop aoa max_trial 1 (map (\<lambda>x. ([x], 0)) a0)) \<le> max_trial"
    by (rule sp_loop_trial)
  with Cons show ?thesis by (simp add: trials_def sp_run_def)
qed

lemma takeWhile_short: "\<exists>x \<in> set xs. \<not> P x \<Longrightarrow> length (takeWhile P xs) < length xs"
  by (induction xs) auto

lemma index_min_less: "sd \<noteq> [] \<Longrightarrow> index_min sd < length sd"
  unfolding index_min_def
  by (rule takeWhile_short) (use Min_in [of "set sd"] in auto)

lemma pad_length: "x \<noteq> [] \<Longrightarrow> length x \<le> n \<Longrightarrow> length (pad n x) = n"
  by (auto simp: pad_def Let_def)

lemma pad_set: "set (pad n x) \<subseteq> set x"
  by (auto simp: pad_def Let_def dest: in_set_takeD)

lemma min_sd_result:
  assumes ne: "aoa \<noteq> []" and rows: "\<forall>x \<in> set aoa. x \<noteq> []"
  shows "\<exists>r. min_sd std aoa = Inr (Some r) \<and> length r = length aoa \<and>
           (\<forall>i < length aoa. \<exists>v. r ! i = PyInt v \<and> v \<in> set (aoa ! i))"
proof -
  define n where "n = Max (set (map length aoa))"
  define rf_pk2 where "rf_pk2 = map (pad n) aoa"
  define sd where "sd = map (\<lambda>j. std (map (\<lambda>row. cell row j) rf_pk2)) [0..<n]"
  have le: "length x \<le> n" if "x \<in> set aoa" for x
    unfolding n_def using that by (intro Max_ge) auto
  from ne obtain a where a: "a \<in> set aoa" by (cases aoa) auto
  with rows le [OF a] have "0 < n" by (cases a) auto
  then have sd: "sd \<noteq> []" by (simp add: sd_def)
  then have k: "index_min sd < n" using index_min_less [of sd] by (simp add: sd_def)
  have eq: "min_sd std aoa = Inr (Some (map (\<lambda>mx_indx. cell mx_indx (index_min sd)) rf_pk2))"
    unfolding min_sd_def Let_def n_def [symmetric] rf_pk2_def [symmetric] sd_def [symmetric]
    using ne sd by simp
  have "\<exists>v. map (\<lambda>mx_indx. cell mx_indx (index_min sd)) rf_pk2 ! i = PyInt v \<and> v \<in> set (aoa ! i)"
    if i: "i < length aoa" for i
  proof -
    from i have mem: "aoa ! i \<in> set aoa" by simp
    with rows have "aoa ! i \<noteq> []" by blast
    with le [OF mem] have len: "length (pad n (aoa ! i)) = n" by (simp add: pad_length)
    with k have "pad n (aoa ! i) ! index_min sd \<in> set (pad n (aoa ! i))" by simp
    with pad_set have "pad n (aoa ! i) ! index_min sd \<in> set (aoa ! i)" by blast
    with i k len show ?thesis by (simp add: rf_pk2_def cell_def)
  qed
  with eq show ?thesis by (simp add: rf_pk2_def)
qed

lemma add_top_zero_prefix:
  "0 < snd item \<Longrightarrow>
     add_top (map (\<lambda>x. ([x], 0)) xs @ q) item = map (\<lambda>x. ([x], 0)) xs @ add_top q item"
  by (induction xs) auto

lemma frontier_ok_pop_expand:
  assumes "frontier_ok aoa result" "selections aoa \<noteq> []" "\<not> complete_hd aoa result"
  shows "frontier_ok aoa (pop_expand aoa result)"
    and "\<exists>sol rest. result = sol # rest \<and> length (fst sol) < length aoa"
proof -
  from assms obtain sol rest where r: "result = sol # rest"
    using frontier_ok_nonempty by (cases result) auto
  from assms(1) r have "length (fst sol) \<le> length aoa"
    by (simp add: frontier_ok_def partial_sel_length)
  with assms(3) r have l: "length (fst sol) < length aoa" by (simp add: complete_hd_def)
  with r show "\<exists>sol rest. result = sol # rest \<and> length (fst sol) < length aoa" by blast
  from frontier_ok_extend [OF assms(1) [unfolded r] l] r l
  show "frontier_ok aoa (pop_expand aoa result)" by (simp add: pop_expand_def)
qed

lemma sp_loop_step:
  assumes "frontier_ok aoa result" "selections aoa \<noteq> []" "\<not> complete_hd aoa result"
    "trial \<noteq> max_trial"
  shows "sp_loop aoa max_trial trial result = sp_loop aoa max_trial (trial + 1) (pop_expand aoa result)"
proof -
  from frontier_ok_pop_expand(2) [OF assms(1-3)] obtain sol rest where
    r: "result = sol # rest" and l: "length (fst sol) < length aoa" by blast
  with assms(4) show ?thesis by (subst sp_loop.simps) (simp add: pop_expand_def)
qed

lemma sp_loop_returns:
  assumes "frontier_ok aoa result" "selections aoa \<noteq> []"
    and "\<forall>i < k. \<not> complete_hd aoa ((pop_expand aoa ^^ i) result)"
    and "(pop_expand aoa ^^ k) result = sol # rest" "length (fst sol) = length aoa"
    and "trial + int k < max_trial"
  shows "sp_loop aoa max_trial trial result = (trial + int k + 1, Inr (Some (fst sol)))"
  using assms
proof (induction k arbitrary: trial result)
  case 0
  then show ?case by (subst sp_loop.simps) simp
next
  case (Suc k)
  from Suc.prems(3) have nc: "\<not> complete_hd aoa result" by force
  from Suc.prems have ne: "trial \<noteq> max_trial" by simp
  have step: "sp_loop aoa max_trial trial result =
      sp_loop aoa max_trial (trial + 1) (pop_expand aoa result)"
    using Suc.prems(1,2) nc ne by (rule sp_loop_step)
  have "sp_loop aoa max_trial (trial + 1) (pop_expand aoa result) =
      (trial + 1 + int k + 1, Inr (Some (fst sol)))"
  proof (rule Suc.IH)
    show "frontier_ok aoa (pop_expand aoa result)"
      using Suc.prems(1,2) nc by (rule frontier_ok_pop_expand)
    show "selections aoa \<noteq> []" by fact
    show "\<forall>i < k. \<not> complete_hd aoa ((pop_expand aoa ^^ i) (pop_expand aoa result))"
    proof (intro allI impI)
      fix i assume "i < k"
      then have "Suc i < Suc k" by simp
      with Suc.prems(3) have "\<not> complete_hd aoa ((pop_expand aoa ^^ Suc i) result)" by blast
      then show "\<not> complete_hd aoa ((pop_expand aoa ^^ i) (pop_expand aoa result))"
        by (simp add: funpow_swap1)
    qed
    from Suc.prems(4) show "(pop_expand aoa ^^ k) (pop_expand aoa result) = sol # rest"
      by (simp add: funpow_swap1)
    show "length (fst sol) = length aoa" by fact
    from Suc.prems(6) show "trial + 1 + int k < max_trial" by simp
  qed
  with step show ?case by simp
qed

lemma sp_loop_none:
  assumes "frontier_ok aoa result" "selections aoa \<noteq> []"
    and "\<forall>i < k. \<not> complete_hd aoa ((pop_expand aoa ^^ i) result)"
    and "trial + int k = max_trial"
  shows "sp_loop aoa max_trial trial result = (max_trial, Inr None)"
  using assms
proof (induction k arbitrary: trial result)
  case 0
  then show ?case by (subst sp_loop.simps) simp
next
  case (Suc k)
  from Suc.prems(3) have nc: "\<not> complete_hd aoa result" by force
  from Suc.prems have ne: "trial \<noteq> max_trial" by simp
  have step: "sp_loop aoa max_trial trial result =
      sp_loop aoa max_trial (trial + 1) (pop_expand aoa result)"
    using Suc.prems(1,2) nc ne by (rule sp_loop_step)
  have "sp_loop aoa max_trial (trial + 1) (pop_expand aoa result) = (max_trial, Inr None)"
  proof (rule Suc.IH)
    show "frontier_ok aoa (pop_expand aoa result)"
      using Suc.prems(1,2) nc by (rule frontier_ok_pop_expand)
    show "selections aoa \<noteq> []" by fact
    show "\<forall>i < k. \<not> complete_hd aoa ((pop_expand aoa ^^ i) (pop_expand aoa result))"
    proof (intro allI impI)
      fix i assume "i < k"
      then have "Suc i < Suc k" by simp
      with Suc.prems(3) have "\<not> complete_hd aoa ((pop_expand aoa ^^ Suc i) result)" by blast
      then show "\<not> complete_hd aoa ((pop_expand aoa ^^ i) (pop_expand aoa result))"
        by (simp add: funpow_swap1)
    qed
    from Suc.prems(4) show "trial + 1 + int k = max_trial" by simp
  qed
  with step show ?case by simp
qed

lemma complete_at_hd: "complete_at aoa k = complete_hd aoa (frontier aoa k)"
  by (simp add: complete_at_def popped_def complete_hd_def split: list.splits)

lemma sp_run_returns:
  assumes "aoa \<noteq> []" "\<forall>x \<in> set aoa. x \<noteq> []"
    and "\<forall>i < k. \<not> complete_at aoa i" "popped aoa k = Some sol" "length sol = length aoa"
    and "int k + 1 < max_trial"
  shows "sp_run aoa max_trial = (int k + 2, Inr (Some sol))"
proof -
  from assms(1) obtain a0 rest where aoa: "aoa = a0 # rest" by (cases aoa) auto
  define init where "init = map (\<lambda>x. ([x], 0::int)) a0"
  have fr: "frontier aoa i = (pop_expand aoa ^^ i) init" for i
    by (simp add: frontier_def aoa init_def)
  have ok: "frontier_ok aoa init" unfolding aoa init_def by (rule frontier_ok_init)
  from assms(2) have sel: "selections aoa \<noteq> []" by (rule selections_nonempty)
  from assms(4) obtain e rest' where hd: "(pop_expand aoa ^^ k) init = e # rest'" "fst e = sol"
    by (auto simp: popped_def fr split: list.splits)
  have "sp_loop aoa max_trial 1 init = (1 + int k + 1, Inr (Some (fst e)))"
  proof (rule sp_loop_returns [OF ok sel _ hd(1)])
    from assms(3) show "\<forall>i < k. \<not> complete_hd aoa ((pop_expand aoa ^^ i) init)"
      by (simp add: complete_at_hd fr)
    from assms(5) hd(2) show "length (fst e) = length aoa" by simp
    from assms(6) show "1 + int k < max_trial" by simp
  qed
  with hd(2) show ?thesis by (simp add: sp_run_def aoa init_def)
qed

lemma sp_run_none:
  assumes "aoa \<noteq> []" "\<forall>x \<in> set aoa. x \<noteq> []"
    and "\<forall>i < k. \<not> complete_at aoa i" and "int k + 1 = max_trial"
  shows "sp_run aoa max_trial = (max_trial, Inr None)"
proof -
  from assms(1) obtain a0 rest where aoa: "aoa = a0 # rest" by (cases aoa) auto
  define init where "init = map (\<lambda>x. ([x], 0::int)) a0"
  have fr: "frontier aoa i = (pop_expand aoa ^^ i) init" for i
    by (simp add: frontier_def aoa init_def)
  have ok: "frontier_ok aoa init" unfolding aoa init_def by (rule frontier_ok_init)
  from assms(2) have sel: "selections aoa \<noteq> []" by (rule selections_nonempty)
  have "sp_loop aoa max_trial 1 init = (max_trial, Inr None)"
  proof (rule sp_loop_none [OF ok sel])
    from assms(3) show "\<forall>i < k. \<not> complete_hd aoa ((pop_expand aoa ^^ i) init)"
      by (simp add: complete_at_hd fr)
    from assms(4) show "1 + int k = max_trial" by simp
  qed
  then show ?thesis by (simp add: sp_run_def aoa init_def)
qed

lemma frontier_singles:
  assumes "y \<notin> set xs" "k \<le> length xs"
  shows "\<exists>q. frontier [xs, [y]] k = map (\<lambda>x. ([x], 0)) (drop k xs) @ q \<and> (\<forall>e \<in> set q. 0 < snd e)"
  using assms(2)
proof (induction k)
  case 0
  show ?case by (simp add: frontier_def)
next
  case (Suc k)
  then obtain q where q: "frontier [xs, [y]] k = map (\<lambda>x. ([x], 0)) (drop k xs) @ q"
    "\<forall>e \<in> set q. 0 < snd e" by auto
  from Suc.prems have dr: "drop k xs = xs ! k # drop (Suc k) xs" by (simp add: Cons_nth_drop_Suc)
  from Suc.prems assms(1) have "xs ! k \<noteq> y" by (metis Suc_le_lessD nth_mem)
  then have pos: "0 < \<bar>xs ! k - y\<bar>" by simp
  have "frontier [xs, [y]] (Suc k) = pop_expand [xs, [y]] (frontier [xs, [y]] k)"
    by (simp add: frontier_def)
  also have "\<dots> = map (\<lambda>x. ([x], 0)) (drop (Suc k) xs) @ add_top q ([xs ! k, y], \<bar>xs ! k - y\<bar>)"
    using pos by (simp add: q(1) dr pop_expand_def expand_def add_top_zero_prefix)
  finally show ?case using q(2) pos by (auto simp: set_add_top)
qed

lemma frontier_singles_incomplete:
  assumes "y \<notin> set xs" "k < length xs"
  shows "\<not> complete_at [xs, [y]] k"
proof -
  from frontier_singles [OF assms(1), of k] assms(2) obtain q where
    "frontier [xs, [y]] k = map (\<lambda>x. ([x], 0)) (drop k xs) @ q" by auto
  moreover from assms(2) have "drop k xs = xs ! k # drop (Suc k) xs" by (simp add: Cons_nth_drop_Suc)
  ultimately show ?thesis by (simp add: complete_at_def popped_def)
qed

lemma alligner_tier2:
  assumes "\<forall>x \<in> set aoa. x \<noteq> []" "candidate aoa = Inr {}" "shortest_path aoa 5000 = Inr (Some sol)"
    "sol \<noteq> []"
  shows "alligner std aoa = Inr (Some (map PyInt sol))"
  using assms by (auto simp: alligner_def alligner_with_def)

lemma alligner_tier3:
  assumes "\<forall>x \<in> set aoa. x \<noteq> []" "candidate aoa = Inr {}" "shortest_path aoa 5000 = Inr None"
  shows "alligner std aoa = min_sd std aoa"
  using assms by (auto simp: alligner_def alligner_with_def)

lemma alligner_tier1:
  assumes "candidate aoa = Inr cand" "cand \<noteq> {}"
  shows "alligner_with sp msd aoa = Inr (Some (replicate (length aoa) (PyInt (Max cand))))"
proof -
  from assms have "cand = (\<Inter>x\<in>set aoa. set x)" by (simp add: candidate_Inr)
  with assms(2) have "\<forall>x \<in> set aoa. x \<noteq> []" by auto
  with assms show ?thesis by (auto simp: alligner_with_def)
qed

text \<open>
  Claim C1. Let every member have a peak and let the members' peak sets have no common
  element. When \<^verbatim>\<open>shortest_path\<close>, with the default budget, returns a solution (it has
  popped a complete assignment before the budget was reached), \<^verbatim>\<open>alligner\<close> returns
  that solution; it picks exactly one peak from each member's list, in the members' order.
  The cost \<^verbatim>\<open>minimize\<close> of the code is the sum of the absolute differences over all pairs
  of positions, and that sum is, for the solution, the least among all selections of one peak
  per member: the brute-force minimum. For \<^verbatim>\<open>[[4],[5]]\<close> the result is \<^verbatim>\<open>[4,5]\<close> with
  cost 1; for \<^verbatim>\<open>[[5],[1,9],[9]]\<close> it is \<^verbatim>\<open>[5,9,9]\<close> with cost 8, the other selection
  \<^verbatim>\<open>[5,1,9]\<close> costing 16 (the witness).
\<close>

theorem shortest_path_optimal:
  assumes "\<forall>x \<in> set aoa. x \<noteq> []" and "candidate aoa = Inr {}"
    and "shortest_path aoa 5000 = Inr (Some sol)"
  shows "alligner std aoa = Inr (Some (map PyInt sol))
       \<and> length sol = length aoa
       \<and> (\<forall>i < length aoa. sol ! i \<in> set (aoa ! i))
       \<and> sol \<in> set (selections aoa)
       \<and> (\<forall>s. minimize s = pair_cost s)
       \<and> (\<forall>s \<in> set (selections aoa). pair_cost sol \<le> pair_cost s)
       \<and> pair_cost sol = brute_force_min aoa"
proof -
  from assms(2) have ne: "aoa \<noteq> []" by (simp add: candidate_Inr)
  from shortest_path_result [OF ne assms(1), of 5000] assms(3)
  have sel: "sol \<in> set (selections aoa)"
    and opt: "\<forall>s \<in> set (selections aoa). pair_cost sol \<le> pair_cost s"
    by (auto simp: minimize_pair_cost)
  from sel have len: "length sol = length aoa" by (rule selections_length)
  with ne have "sol \<noteq> []" by auto
  with assms have al: "alligner std aoa = Inr (Some (map PyInt sol))" by (simp add: alligner_tier2)
  have "Min (pair_cost ` set (selections aoa)) = pair_cost sol"
    using sel opt by (intro Min_eqI) auto
  then have bf: "pair_cost sol = brute_force_min aoa" by (simp add: brute_force_min_def)
  from sel have "\<forall>i < length aoa. sol ! i \<in> set (aoa ! i)" by (simp add: selections_nth)
  with al len sel opt bf minimize_pair_cost show ?thesis by blast
qed

theorem shortest_path_optimal_witness:
  "candidate [[4], [5]] = Inr {}
   \<and> shortest_path [[4], [5]] 5000 = Inr (Some [4, 5])
   \<and> alligner sq_dev [[4], [5]] = Inr (Some [PyInt 4, PyInt 5])
   \<and> pair_cost [4, 5] = 1
   \<and> brute_force_min [[4], [5]] = 1
   \<and> candidate [[5], [1, 9], [9]] = Inr {}
   \<and> shortest_path [[5], [1, 9], [9]] 5000 = Inr (Some [5, 9, 9])
   \<and> alligner sq_dev [[5], [1, 9], [9]] = Inr (Some [PyInt 5, PyInt 9, PyInt 9])
   \<and> selections [[5], [1, 9], [9]] = [[5, 1, 9], [5, 9, 9]]
   \<and> pair_cost [5, 9, 9] = 8
   \<and> pair_cost [5, 1, 9] = 16
   \<and> minimize [5, 1, 9] = 16
   \<and> brute_force_min [[5], [1, 9], [9]] = 8"
proof -
  have a1: "\<forall>x \<in> set [[4], [5::int]]. x \<noteq> []" by simp
  have a2: "candidate [[4], [5]] = Inr {}" by (simp add: candidate_def)
  have a3: "shortest_path [[4], [5]] 5000 = Inr (Some [4, 5])"
    by (simp add: shortest_path_def sp_run_def sp_loop.simps expand_def)
  have b1: "\<forall>x \<in> set [[5], [1, 9], [9::int]]. x \<noteq> []" by simp
  have b2: "candidate [[5], [1, 9], [9]] = Inr {}" by (simp add: candidate_def)
  have b3: "shortest_path [[5], [1, 9], [9]] 5000 = Inr (Some [5, 9, 9])"
    by (simp add: shortest_path_def sp_run_def sp_loop.simps expand_def)
  have c: "pair_cost [4, 5] = 1" "pair_cost [5, 9, 9] = 8" "pair_cost [5, 1, 9] = 16"
    by (simp_all add: pair_cost_def upt_rec)
  have s: "selections [[5], [1, 9], [9]] = [[5, 1, 9], [5, 9, 9]]" by (simp add: selections_def)
  note t1 = shortest_path_optimal [OF a1 a2 a3, of sq_dev]
  note t2 = shortest_path_optimal [OF b1 b2 b3, of sq_dev]
  from t1 have r1: "alligner sq_dev [[4], [5]] = Inr (Some (map PyInt [4, 5]))"
    and m1: "pair_cost [4, 5] = brute_force_min [[4], [5]]" by blast+
  from t2 have r2: "alligner sq_dev [[5], [1, 9], [9]] = Inr (Some (map PyInt [5, 9, 9]))"
    and m2: "pair_cost [5, 9, 9] = brute_force_min [[5], [1, 9], [9]]"
    and mc: "minimize [5, 1, 9] = pair_cost [5, 1, 9]" by blast+
  from a2 a3 b2 b3 c s r1 m1 r2 m2 mc show ?thesis by simp
qed

text \<open>
  Claim C2. When the intersection of the members' peak sets is not empty (so that every member
  has a peak), \<^verbatim>\<open>alligner\<close> returns the greatest element of the intersection once per
  member, and the result is the same whatever stands in the place of \<^verbatim>\<open>shortest_path\<close>
  and \<^verbatim>\<open>min_sd\<close>: neither is called.
\<close>

theorem alligner_intersection:
  assumes "candidate aoa = Inr cand" and "cand \<noteq> {}"
  shows "alligner std aoa = Inr (Some (replicate (length aoa) (PyInt (Max cand))))
       \<and> cand = (\<Inter>x \<in> set aoa. set x)
       \<and> (\<forall>sp msd. alligner_with sp msd aoa = alligner std aoa)"
  using assms alligner_tier1 [OF assms]
  by (simp add: alligner_def candidate_Inr)

theorem alligner_intersection_witness:
  "candidate [[4, 7], [5, 7], [7]] = Inr {7}
   \<and> alligner sq_dev [[4, 7], [5, 7], [7]] = Inr (Some [PyInt 7, PyInt 7, PyInt 7])
   \<and> (\<forall>sp msd. alligner_with sp msd [[4, 7], [5, 7], [7]] = Inr (Some [PyInt 7, PyInt 7, PyInt 7]))"
proof -
  have h: "candidate [[4, 7], [5, 7], [7]] = Inr {7}" by (simp add: candidate_def)
  from alligner_intersection [OF h, of sq_dev] h show ?thesis
    by (simp add: numeral_3_eq_3)
qed

text \<open>
  Claim C3. For at least one member and no member without a peak, \<^verbatim>\<open>shortest_path\<close>
  with the default budget 5000 pops fewer than 5000 entries and returns without an error.
  It returns the first complete assignment that is popped, when that is one of the first 4999
  pops, after exactly that many pops; when none of the first 4999 pops takes a complete
  assignment it returns \<^verbatim>\<open>None\<close> after 4999 pops. When it returns \<^verbatim>\<open>None\<close> in
  \<^verbatim>\<open>alligner\<close> (which calls it when the intersection is empty), the result of
  \<^verbatim>\<open>alligner\<close> is that of \<^verbatim>\<open>min_sd\<close>, which returns a list. That the loop ends
  is the termination proof of \<open>sp_loop\<close>, which does not depend on the budget.
\<close>

theorem shortest_path_budget:
  assumes "aoa \<noteq> []" and "\<forall>x \<in> set aoa. x \<noteq> []"
  shows "trials aoa 5000 < 5000
       \<and> (\<forall>k sol. k < 4999 \<and> (\<forall>i < k. \<not> complete_at aoa i) \<and> popped aoa k = Some sol
                   \<and> length sol = length aoa
              \<longrightarrow> shortest_path aoa 5000 = Inr (Some sol) \<and> trials aoa 5000 = int k + 1)
       \<and> ((\<forall>k < 4999. \<not> complete_at aoa k)
              \<longrightarrow> shortest_path aoa 5000 = Inr None \<and> trials aoa 5000 = 4999)
       \<and> (shortest_path aoa 5000 = Inr None
            \<or> (\<exists>sol. shortest_path aoa 5000 = Inr (Some sol) \<and> sol \<in> set (selections aoa)))
       \<and> (candidate aoa = Inr {} \<and> shortest_path aoa 5000 = Inr None \<longrightarrow>
            alligner std aoa = min_sd std aoa \<and> (\<exists>pks. min_sd std aoa = Inr (Some pks)))"
proof (intro conjI allI impI)
  show "trials aoa 5000 < 5000" by (rule trials_bound) simp
next
  fix k sol
  assume h: "k < 4999 \<and> (\<forall>i < k. \<not> complete_at aoa i) \<and> popped aoa k = Some sol
      \<and> length sol = length aoa"
  then have "sp_run aoa 5000 = (int k + 2, Inr (Some sol))"
    by (intro sp_run_returns [OF assms]) auto
  then show "shortest_path aoa 5000 = Inr (Some sol)" "trials aoa 5000 = int k + 1"
    by (simp_all add: shortest_path_def trials_def)
next
  assume "\<forall>k < 4999. \<not> complete_at aoa k"
  then have "sp_run aoa 5000 = (5000, Inr None)"
    by (intro sp_run_none [OF assms, of 4999]) auto
  then show "shortest_path aoa 5000 = Inr None" "trials aoa 5000 = 4999"
    by (simp_all add: shortest_path_def trials_def)
next
  from shortest_path_result [OF assms, of 5000]
  show "shortest_path aoa 5000 = Inr None
      \<or> (\<exists>sol. shortest_path aoa 5000 = Inr (Some sol) \<and> sol \<in> set (selections aoa))"
    by blast
next
  assume "candidate aoa = Inr {} \<and> shortest_path aoa 5000 = Inr None"
  with assms show "alligner std aoa = min_sd std aoa" by (simp add: alligner_tier3)
  from min_sd_result [OF assms, of std] show "\<exists>pks. min_sd std aoa = Inr (Some pks)" by blast
qed

theorem shortest_path_budget_witness:
  "popped [[4], [5]] 0 = Some [4]
   \<and> popped [[4], [5]] 1 = Some [4, 5]
   \<and> shortest_path [[4], [5]] 5000 = Inr (Some [4, 5])
   \<and> trials [[4], [5]] 5000 = 2
   \<and> shortest_path [[1..4999], [5000]] 5000 = Inr None
   \<and> trials [[1..4999], [5000]] 5000 = 4999
   \<and> alligner sq_dev [[1..4999], [5000]] = min_sd sq_dev [[1..4999], [5000]]
   \<and> (\<exists>pks. min_sd sq_dev [[1..4999], [5000]] = Inr (Some pks))"
proof -
  have a1: "[[4], [5::int]] \<noteq> []" by simp
  have a2: "\<forall>x \<in> set [[4], [5::int]]. x \<noteq> []" by simp
  have p0: "popped [[4], [5]] 0 = Some [4]" by (simp add: popped_def frontier_def)
  have p1: "popped [[4], [5]] 1 = Some [4, 5]"
    by (simp add: popped_def frontier_def pop_expand_def expand_def)
  have n0: "\<forall>i < 1. \<not> complete_at [[4], [5]] i" by (simp add: complete_at_def p0)
  note t = shortest_path_budget [OF a1 a2, of sq_dev]
  from t have "1 < (4999::nat) \<and> (\<forall>i < 1. \<not> complete_at [[4], [5]] i) \<and> popped [[4], [5]] 1 = Some [4, 5]
        \<and> length [4, 5::int] = length [[4], [5::int]]
      \<longrightarrow> shortest_path [[4], [5]] 5000 = Inr (Some [4, 5]) \<and> trials [[4], [5]] 5000 = int 1 + 1"
    by blast
  with n0 p1 have r: "shortest_path [[4], [5]] 5000 = Inr (Some [4, 5])" "trials [[4], [5]] 5000 = 2"
    by simp_all
  have h1: "[[1..4999], [5000::int]] \<noteq> []" by simp
  have h2: "\<forall>x \<in> set [[1..4999], [5000::int]]. x \<noteq> []" by simp
  have h3: "candidate [[1..4999], [5000]] = Inr {}" by (simp add: candidate_def)
  have inc: "\<forall>k < 4999. \<not> complete_at [[1..4999], [5000]] k"
  proof (intro allI impI)
    fix k :: nat assume "k < 4999"
    then show "\<not> complete_at [[1..4999], [5000]] k"
      by (intro frontier_singles_incomplete) simp_all
  qed
  note u = shortest_path_budget [OF h1 h2, of sq_dev]
  from u inc have n: "shortest_path [[1..4999], [5000]] 5000 = Inr None"
    "trials [[1..4999], [5000]] 5000 = 4999" by blast+
  from u h3 n(1) have f: "alligner sq_dev [[1..4999], [5000]] = min_sd sq_dev [[1..4999], [5000]]"
    "\<exists>pks. min_sd sq_dev [[1..4999], [5000]] = Inr (Some pks)" by blast+
  from p0 p1 r n f show ?thesis by (intro conjI)
qed

lemma alligner_shape:
  assumes "alligner std aoa = Inr (Some r)"
  shows "length r = length aoa \<and> (\<forall>i < length aoa. \<exists>v. r ! i = PyInt v \<and> v \<in> set (aoa ! i))"
proof -
  from assms have rows: "\<forall>x \<in> set aoa. x \<noteq> []"
    by (auto simp: alligner_def alligner_with_def split: if_splits)
  from assms obtain cand where cand: "candidate aoa = Inr cand"
    by (cases "candidate aoa") (auto simp: alligner_def alligner_with_def split: if_splits)
  then have ne: "aoa \<noteq> []" and c: "cand = (\<Inter>x \<in> set aoa. set x)" by (simp_all add: candidate_Inr)
  show ?thesis
  proof (cases "cand = {}")
    case False
    with cand assms have r: "r = replicate (length aoa) (PyInt (Max cand))"
      using alligner_tier1 [OF cand False] by (simp add: alligner_def)
    have "finite cand" using ne unfolding c by (cases aoa) auto
    then have "Max cand \<in> cand" using False by (rule Max_in)
    with c have "\<forall>i < length aoa. Max cand \<in> set (aoa ! i)" by auto
    with r show ?thesis by simp
  next
    case True
    from shortest_path_result [OF ne rows, of 5000] show ?thesis
    proof
      assume n: "shortest_path aoa 5000 = Inr None"
      with rows cand True have "alligner std aoa = min_sd std aoa" by (simp add: alligner_tier3)
      with assms min_sd_result [OF ne rows, of std] show ?thesis by auto
    next
      assume "\<exists>sol. shortest_path aoa 5000 = Inr (Some sol) \<and> sol \<in> set (selections aoa) \<and>
                (\<forall>s \<in> set (selections aoa). minimize sol \<le> minimize s)"
      then obtain sol where sp: "shortest_path aoa 5000 = Inr (Some sol)"
        and sel: "sol \<in> set (selections aoa)" by blast
      from sel have len: "length sol = length aoa" by (rule selections_length)
      with ne have "sol \<noteq> []" by auto
      with rows cand True sp have "alligner std aoa = Inr (Some (map PyInt sol))"
        by (simp add: alligner_tier2)
      with assms have "r = map PyInt sol" by simp
      with len sel show ?thesis by (simp add: selections_nth)
    qed
  qed
qed

text \<open>
  Claim C10. Whenever \<^verbatim>\<open>alligner\<close> returns a list, the list has one value per member,
  and the value at each position is an int that belongs to the peak list of the member at that
  position. The proof goes through the three tiers.
\<close>

theorem alligner_one_per_member:
  assumes "alligner std aoa = Inr (Some r)"
  shows "length r = length aoa \<and> (\<forall>i < length aoa. \<exists>v. r ! i = PyInt v \<and> v \<in> set (aoa ! i))"
  using assms by (rule alligner_shape)

theorem alligner_one_per_member_witness:
  "alligner sq_dev [[4], [5]] = Inr (Some [PyInt 4, PyInt 5])
   \<and> length [PyInt 4, PyInt 5] = length [[4], [5::int]]
   \<and> (\<exists>v. [PyInt 4, PyInt 5] ! 0 = PyInt v \<and> v \<in> set ([[4], [5]] ! 0))
   \<and> (\<exists>v. [PyInt 4, PyInt 5] ! 1 = PyInt v \<and> v \<in> set ([[4], [5]] ! 1))"
proof -
  have h: "alligner sq_dev [[4], [5]] = Inr (Some [PyInt 4, PyInt 5])"
    by (simp add: alligner_def alligner_with_def candidate_def shortest_path_def sp_run_def
        sp_loop.simps expand_def)
  from alligner_one_per_member [OF h] h show ?thesis by simp
qed

subsection \<open>Profiles and complexes\<close>

lemma format_loop_distinct:
  "distinct (get_members tmp) \<Longrightarrow> format_loop pp ft rows tmp = Inr c \<Longrightarrow> distinct (get_members c)"
proof (induction pp ft rows tmp rule: format_loop.induct)
  case (1 pp ft tmp)
  then show ?case by simp
next
  case (2 pp ft idx a rest tmp)
  show ?case
  proof (cases "a \<in> set (get_members tmp)")
    case True
    with 2 show ?thesis by simp
  next
    case False
    with "2.prems" have le: "\<not> length ft \<le> idx" by (auto split: if_splits)
    have "distinct (get_members (add_member tmp (calc_peaks pp (ProteinProfile_init a (ft ! idx)))))"
      using False "2.prems"(1)
      by (simp add: get_members_def add_member_def calc_peaks_def Let_def ProteinProfile_init_def)
    with "2.IH"(2) [OF False le] "2.prems"(2) False le show ?thesis by simp
  qed
qed

lemma format_hash_distinct:
  assumes "format_hash pp ident mb ft = Inr c"
  shows "distinct (get_members c)"
proof -
  have "distinct (get_members (ComplexProfile_init ident))"
    by (simp add: get_members_def ComplexProfile_init_def)
  then show ?thesis
    using assms unfolding format_hash_def by (rule format_loop_distinct)
qed

lemma filter_nth_map:
  "map (\<lambda>i. h (xs ! i)) (filter (\<lambda>i. P (xs ! i)) [0..<length xs]) = map h (filter P xs)"
proof -
  have "map h (filter P xs) = map h (filter P (map ((!) xs) [0..<length xs]))"
    by (simp add: map_nth)
  also have "\<dots> = map (\<lambda>i. h (xs ! i)) (filter (\<lambda>i. P (xs ! i)) [0..<length xs])"
    by (simp add: filter_map comp_def)
  finally show ?thesis by simp
qed

lemma nan_members_eq:
  "map (\<lambda>i. map f xs ! i) (filter (\<lambda>i. map g xs ! i = []) [0..<length (map g xs)])
     = map f (filter (\<lambda>p. g p = []) xs)"
proof -
  have 1: "filter (\<lambda>i. map g xs ! i = []) [0..<length (map g xs)]
      = filter (\<lambda>i. g (xs ! i) = []) [0..<length xs]"
    by (rule filter_cong) auto
  have 2: "map (\<lambda>i. map f xs ! i) (filter (\<lambda>i. g (xs ! i) = []) [0..<length xs])
      = map (\<lambda>i. f (xs ! i)) (filter (\<lambda>i. g (xs ! i) = []) [0..<length xs])"
    by (rule map_cong) auto
  show ?thesis unfolding 1 2 by (rule filter_nth_map)
qed

lemma mb_pres_eq:
  assumes "distinct (map f xs)"
  shows "filter (\<lambda>x. x \<notin> set (map f (filter (\<lambda>p. g p = []) xs))) (map f xs)
       = map f (filter (\<lambda>p. g p \<noteq> []) xs)"
proof -
  from assms have inj: "inj_on f (set xs)" by (simp add: distinct_map)
  have "filter ((\<lambda>x. x \<notin> set (map f (filter (\<lambda>p. g p = []) xs))) \<circ> f) xs = filter (\<lambda>p. g p \<noteq> []) xs"
  proof (rule filter_cong)
    fix p assume p: "p \<in> set xs"
    show "((\<lambda>x. x \<notin> set (map f (filter (\<lambda>p. g p = []) xs))) \<circ> f) p = (g p \<noteq> [])"
      using p inj by (auto dest: inj_onD)
  qed simp
  then show ?thesis by (simp add: filter_map)
qed

lemma update_fresh: "k \<notin> fst ` set d \<Longrightarrow> AList.update k v d = d @ [(k, v)]"
  by (induction d) auto

lemma dict_update_fresh:
  "distinct (map fst kvs) \<Longrightarrow> fst ` set kvs \<inter> fst ` set d = {} \<Longrightarrow> dict_update d kvs = d @ kvs"
proof (induction kvs arbitrary: d)
  case Nil
  then show ?case by (simp add: dict_update_def)
next
  case (Cons kv kvs)
  obtain k v where kv: "kv = (k, v)" by (cases kv)
  from Cons.prems kv have fresh: "k \<notin> fst ` set d" by auto
  have "dict_update d (kv # kvs) = dict_update (d @ [(k, v)]) kvs"
    using fresh by (simp add: dict_update_def kv update_fresh)
  also have "\<dots> = (d @ [(k, v)]) @ kvs"
  proof (rule Cons.IH)
    from Cons.prems show "distinct (map fst kvs)" by simp
    from Cons.prems kv show "fst ` set kvs \<inter> fst ` set (d @ [(k, v)]) = {}" by force
  qed
  finally show ?case by (simp add: kv)
qed

lemma dict_distinct: "distinct (map fst kvs) \<Longrightarrow> dict kvs = kvs"
  using dict_update_fresh [of kvs "[]"] by (simp add: dict_def)

lemma map_of_zip_replicate:
  "k \<in> set ks \<Longrightarrow> map_of (zip ks (replicate (length ks) v)) k = Some v"
  by (induction ks) auto

lemma map_of_zip_all:
  assumes "distinct ks" "length ks = length vs"
  shows "map (map_of (zip ks vs)) ks = map Some vs"
proof (rule nth_equalityI)
  show "length (map (map_of (zip ks vs)) ks) = length (map Some vs)" using assms by simp
next
  fix i assume "i < length (map (map_of (zip ks vs)) ks)"
  with assms show "map (map_of (zip ks vs)) ks ! i = map Some vs ! i"
    by (simp add: map_of_zip_nth)
qed

lemma align_peaks_all_missing:
  assumes "\<forall>p \<in> set (members self). peaks p = []"
  shows "align_peaks std medi self =
     Inr (self\<lparr>pks_ali := dict (zip (get_members self) (replicate (length (members self)) PyNaN))\<rparr>, None)"
proof -
  from assms have "filter (\<lambda>p. peaks p = []) (members self) = members self" by simp
  then have "map (\<lambda>i. get_members self ! i)
      (filter (\<lambda>i. map peaks (members self) ! i = []) [0..<length (map peaks (members self))])
      = get_members self"
    unfolding get_members_def by (simp only: nan_members_eq)
  then show ?thesis by (simp add: align_peaks_def Let_def get_members_def)
qed

lemma align_peaks_lists:
  "map (\<lambda>i. get_members self ! i)
      (filter (\<lambda>i. map peaks (members self) ! i = []) [0..<length (map peaks (members self))])
     = map acc (filter (\<lambda>p. peaks p = []) (members self))"
  "filter (\<lambda>x. x \<noteq> []) (map peaks (members self))
     = map peaks (filter (\<lambda>p. peaks p \<noteq> []) (members self))"
  unfolding get_members_def by (simp_all only: nan_members_eq filter_map comp_def)

lemma align_peaks_True:
  assumes d: "distinct (get_members self)"
    and ok: "align_peaks std medi self = Inr (self', Some True)"
  defines "has \<equiv> filter (\<lambda>p. peaks p \<noteq> []) (members self)"
    and "hasnt \<equiv> filter (\<lambda>p. peaks p = []) (members self)"
  shows "\<exists>ali_pk m out. alligner std (map peaks has) = Inr (Some ali_pk) \<and> medi ali_pk = Inr m
           \<and> length ali_pk = length has
           \<and> has \<noteq> []
           \<and> self' = self\<lparr>pks_ali := zip (map acc hasnt) (replicate (length hasnt) (PyInt (py_round m)))
                                      @ zip (map acc has) ali_pk,
                          pks := out\<rparr>"
proof -
  have nan: "map (\<lambda>i. get_members self ! i)
      (filter (\<lambda>i. map peaks (members self) ! i = []) [0..<length (map peaks (members self))])
     = map acc hasnt"
    unfolding hasnt_def by (rule align_peaks_lists)
  have pres: "filter (\<lambda>x. x \<noteq> []) (map peaks (members self)) = map peaks has"
    unfolding has_def by (rule align_peaks_lists)
  have mb: "filter (\<lambda>x. x \<notin> set (map acc hasnt)) (get_members self) = map acc has"
    unfolding has_def hasnt_def get_members_def
    using d [unfolded get_members_def] by (rule mb_pres_eq)
  have ne: "map acc hasnt \<noteq> get_members self"
    using ok unfolding align_peaks_def Let_def nan by (auto split: if_splits)
  have "has \<noteq> []"
  proof
    assume "has = []"
    then have "\<forall>p \<in> set (members self). peaks p = []"
      unfolding has_def by (simp add: filter_empty_conv)
    then have "hasnt = members self" unfolding hasnt_def by simp
    with ne show False by (simp add: get_members_def)
  qed
  from ok ne obtain ali_pk m out where
    al: "alligner std (map peaks has) = Inr (Some ali_pk)" and
    me: "medi ali_pk = Inr m" and
    s': "self' = self\<lparr>pks_ali := dict_update
            (dict (zip (map acc hasnt) (replicate (length (map acc hasnt)) (PyInt (py_round m)))))
            (dict (zip (map acc has) ali_pk)),
          pks := out\<rparr>"
    unfolding align_peaks_def Let_def nan pres mb
    by (auto split: if_splits sum.splits option.splits)
  from al have len: "length ali_pk = length has"
    using alligner_shape [OF al] by simp
  have dm: "distinct (map acc (members self))" using d by (simp add: get_members_def)
  have dh: "distinct (map acc has)" unfolding has_def using dm by (rule distinct_map_filter)
  have dn: "distinct (map acc hasnt)" unfolding hasnt_def using dm by (rule distinct_map_filter)
  have inj: "inj_on acc (set (members self))" using dm by (simp add: distinct_map)
  have disj: "set (map acc has) \<inter> set (map acc hasnt) = {}"
    unfolding has_def hasnt_def using inj by (auto dest: inj_onD)
  have A: "dict (zip (map acc hasnt) (replicate (length (map acc hasnt)) (PyInt (py_round m))))
        = zip (map acc hasnt) (replicate (length hasnt) (PyInt (py_round m)))"
    using dn by (simp add: dict_distinct)
  have B: "dict (zip (map acc has) ali_pk) = zip (map acc has) ali_pk"
    using dh len by (simp add: dict_distinct)
  have "dict_update (zip (map acc hasnt) (replicate (length hasnt) (PyInt (py_round m))))
          (zip (map acc has) ali_pk)
      = zip (map acc hasnt) (replicate (length hasnt) (PyInt (py_round m))) @ zip (map acc has) ali_pk"
  proof (rule dict_update_fresh)
    show "distinct (map fst (zip (map acc has) ali_pk))" using dh len by simp
    show "fst ` set (zip (map acc has) ali_pk)
        \<inter> fst ` set (zip (map acc hasnt) (replicate (length hasnt) (PyInt (py_round m)))) = {}"
      using disj len by (simp flip: set_map)
  qed
  with s' A B al me len \<open>has \<noteq> []\<close> show ?thesis by auto
qed

lemma py_round_cases:
  obtains (down) "x - of_int \<lfloor>x\<rfloor> < 1 / 2" "py_round x = \<lfloor>x\<rfloor>"
  | (up) "1 / 2 < x - of_int \<lfloor>x\<rfloor>" "py_round x = \<lfloor>x\<rfloor> + 1"
  | (tie_even) "x - of_int \<lfloor>x\<rfloor> = 1 / 2" "even \<lfloor>x\<rfloor>" "py_round x = \<lfloor>x\<rfloor>"
  | (tie_odd) "x - of_int \<lfloor>x\<rfloor> = 1 / 2" "odd \<lfloor>x\<rfloor>" "py_round x = \<lfloor>x\<rfloor> + 1"
proof -
  consider "x - of_int \<lfloor>x\<rfloor> < 1 / 2" | "1 / 2 < x - of_int \<lfloor>x\<rfloor>"
    | "x - of_int \<lfloor>x\<rfloor> = 1 / 2" "even \<lfloor>x\<rfloor>" | "x - of_int \<lfloor>x\<rfloor> = 1 / 2" "odd \<lfloor>x\<rfloor>"
    by linarith
  then show ?thesis
  proof cases
    case 1
    then have "py_round x = \<lfloor>x\<rfloor>" by (simp add: py_round_def Let_def)
    with 1 show ?thesis by (rule down)
  next
    case 2
    then have "py_round x = \<lfloor>x\<rfloor> + 1" by (simp add: py_round_def Let_def)
    with 2 show ?thesis by (rule up)
  next
    case 3
    then have "py_round x = \<lfloor>x\<rfloor>" by (simp add: py_round_def Let_def)
    with 3 show ?thesis by (rule tie_even)
  next
    case 4
    then have "py_round x = \<lfloor>x\<rfloor> + 1" by (simp add: py_round_def Let_def)
    with 4 show ?thesis by (rule tie_odd)
  qed
qed

lemma py_round_nearest: "\<bar>of_int (py_round x) - x\<bar> \<le> 1 / 2"
proof -
  have f: "of_int \<lfloor>x\<rfloor> \<le> x" "x < of_int \<lfloor>x\<rfloor> + 1" by linarith+
  show ?thesis
  proof (cases x rule: py_round_cases)
    case down
    with f show ?thesis by simp
  next
    case up
    with f show ?thesis by simp
  next
    case tie_even
    with f show ?thesis by simp
  next
    case tie_odd
    with f show ?thesis by simp
  qed
qed

lemma py_round_tie:
  assumes "\<bar>of_int (py_round x) - x\<bar> = 1 / 2"
  shows "even (py_round x)"
proof -
  have f: "of_int \<lfloor>x\<rfloor> \<le> x" "x < of_int \<lfloor>x\<rfloor> + 1" by linarith+
  show ?thesis
  proof (cases x rule: py_round_cases)
    case down
    with f assms show ?thesis by simp
  next
    case up
    with f assms show ?thesis by simp
  next
    case tie_even
    then show ?thesis by simp
  next
    case tie_odd
    then show ?thesis by simp
  qed
qed

lemma align_peaks_mapping:
  assumes "distinct (get_members self)"
    and "align_peaks std medi self = Inr (self', Some True)"
  shows "length (pks_ali self') = length (members self)
       \<and> distinct (map fst (pks_ali self'))
       \<and> set (map fst (pks_ali self')) = set (get_members self)
       \<and> members self' = members self
       \<and> (\<exists>ali_pk m.
             alligner std (map peaks (filter (\<lambda>p. peaks p \<noteq> []) (members self))) = Inr (Some ali_pk)
           \<and> medi ali_pk = Inr m
           \<and> map (\<lambda>p. map_of (pks_ali self') (acc p)) (filter (\<lambda>p. peaks p \<noteq> []) (members self))
               = map Some ali_pk
           \<and> map (\<lambda>p. map_of (pks_ali self') (acc p)) (filter (\<lambda>p. peaks p = []) (members self))
               = replicate (length (filter (\<lambda>p. peaks p = []) (members self)))
                   (Some (PyInt (py_round m))))"
proof -
  define has where "has = filter (\<lambda>p. peaks p \<noteq> []) (members self)"
  define hasnt where "hasnt = filter (\<lambda>p. peaks p = []) (members self)"
  from align_peaks_True [OF assms] obtain ali_pk m out where
    al: "alligner std (map peaks has) = Inr (Some ali_pk)" and
    me: "medi ali_pk = Inr m" and
    len: "length ali_pk = length has" and
    s': "self' = self\<lparr>pks_ali := zip (map acc hasnt) (replicate (length hasnt) (PyInt (py_round m)))
                                      @ zip (map acc has) ali_pk,
                          pks := out\<rparr>"
    unfolding has_def hasnt_def by blast
  define A where "A = zip (map acc hasnt) (replicate (length hasnt) (PyInt (py_round m)))"
  define B where "B = zip (map acc has) ali_pk"
  have pa: "pks_ali self' = A @ B" by (simp add: s' A_def B_def)
  have dm: "distinct (map acc (members self))" using assms(1) by (simp add: get_members_def)
  have dh: "distinct (map acc has)" unfolding has_def using dm by (rule distinct_map_filter)
  have dn: "distinct (map acc hasnt)" unfolding hasnt_def using dm by (rule distinct_map_filter)
  have inj: "inj_on acc (set (members self))" using dm by (simp add: distinct_map)
  have disj: "set (map acc has) \<inter> set (map acc hasnt) = {}"
    unfolding has_def hasnt_def using inj by (auto dest: inj_onD)
  have fA: "map fst A = map acc hasnt" by (simp add: A_def)
  have fB: "map fst B = map acc has" using len by (simp add: B_def)
  have "length (filter (\<lambda>p. peaks p = []) (members self))
      + length (filter (\<lambda>p. \<not> peaks p = []) (members self)) = length (members self)"
    by (rule sum_length_filter_compl)
  then have c1: "length (pks_ali self') = length (members self)"
    using len by (simp add: pa A_def B_def has_def hasnt_def)
  have c2: "distinct (map fst (pks_ali self'))"
    using dh dn disj by (auto simp: pa fA fB)
  have c3: "set (map fst (pks_ali self')) = set (get_members self)"
    unfolding pa map_append fA fB set_append get_members_def has_def hasnt_def by auto
  have c4: "members self' = members self" by (simp add: s')
  have c5: "map (\<lambda>p. map_of (pks_ali self') (acc p)) has = map Some ali_pk"
  proof -
    have "map_of (A @ B) (acc p) = map_of B (acc p)" if "p \<in> set has" for p
    proof -
      from that have "acc p \<in> set (map acc has)" by simp
      with disj have "acc p \<notin> set (map fst A)" unfolding fA by blast
      then have "acc p \<notin> fst ` set A" by simp
      then have "map_of A (acc p) = None" by (simp add: map_of_eq_None_iff)
      then show ?thesis by (simp add: map_add_def)
    qed
    then have "map (\<lambda>p. map_of (pks_ali self') (acc p)) has = map (\<lambda>p. map_of B (acc p)) has"
      by (simp add: pa)
    also have "\<dots> = map (map_of (zip (map acc has) ali_pk)) (map acc has)"
      by (simp add: B_def comp_def)
    also have "\<dots> = map Some ali_pk" using dh len by (intro map_of_zip_all) simp_all
    finally show ?thesis .
  qed
  have c6: "map (\<lambda>p. map_of (pks_ali self') (acc p)) hasnt
      = replicate (length hasnt) (Some (PyInt (py_round m)))"
  proof -
    have "map_of (A @ B) (acc p) = Some (PyInt (py_round m))" if "p \<in> set hasnt" for p
    proof -
      from that have "acc p \<in> set (map acc hasnt)" by simp
      then have "map_of (zip (map acc hasnt) (replicate (length (map acc hasnt)) (PyInt (py_round m)))) (acc p)
          = Some (PyInt (py_round m))" by (rule map_of_zip_replicate)
      then show ?thesis by (simp add: A_def map_add_def)
    qed
    then show ?thesis by (simp add: pa map_replicate_const [symmetric] cong: map_cong)
  qed
  from c1 c2 c3 c4 al me c5 c6 show ?thesis unfolding has_def hasnt_def by blast
qed

text \<open>
  Claim C4. Let the members have pairwise different accessions (\<open>format_hash_distinct\<close>:
  the driver builds no other complex). When \<^verbatim>\<open>align_peaks\<close> returns \<^verbatim>\<open>True\<close>, the
  consensus mapping \<^verbatim>\<open>pks_ali\<close> has exactly one entry per member, its keys being the
  members' accessions; the members with a peak map, in their order, to the values that
  \<^verbatim>\<open>alligner\<close> returns for their peak lists, and every member without a peak maps to the
  rounded value of what \<^verbatim>\<open>st.medi\<close> gives for those aligned peaks, the same for all of
  them: an integer at most one half away from it, and the even one of the two when it is
  exactly one half away.
\<close>

theorem align_peaks_consensus:
  assumes "distinct (get_members self)"
    and "align_peaks std medi self = Inr (self', Some True)"
  shows "length (pks_ali self') = length (members self)
       \<and> distinct (map fst (pks_ali self'))
       \<and> set (map fst (pks_ali self')) = set (get_members self)
       \<and> members self' = members self
       \<and> (\<exists>ali_pk m md.
             alligner std (map peaks (filter (\<lambda>p. peaks p \<noteq> []) (members self))) = Inr (Some ali_pk)
           \<and> medi ali_pk = Inr m
           \<and> md = py_round m
           \<and> \<bar>of_int md - m\<bar> \<le> 1 / 2
           \<and> (\<bar>of_int md - m\<bar> = 1 / 2 \<longrightarrow> even md)
           \<and> map (\<lambda>p. map_of (pks_ali self') (acc p)) (filter (\<lambda>p. peaks p \<noteq> []) (members self))
               = map Some ali_pk
           \<and> map (\<lambda>p. map_of (pks_ali self') (acc p)) (filter (\<lambda>p. peaks p = []) (members self))
               = replicate (length (filter (\<lambda>p. peaks p = []) (members self)))
                   (Some (PyInt md)))"
proof -
  from align_peaks_mapping [OF assms] obtain ali_pk m where
    c: "length (pks_ali self') = length (members self)"
       "distinct (map fst (pks_ali self'))"
       "set (map fst (pks_ali self')) = set (get_members self)"
       "members self' = members self" and
    al: "alligner std (map peaks (filter (\<lambda>p. peaks p \<noteq> []) (members self))) = Inr (Some ali_pk)" and
    me: "medi ali_pk = Inr m" and
    has: "map (\<lambda>p. map_of (pks_ali self') (acc p)) (filter (\<lambda>p. peaks p \<noteq> []) (members self))
            = map Some ali_pk" and
    hasnt: "map (\<lambda>p. map_of (pks_ali self') (acc p)) (filter (\<lambda>p. peaks p = []) (members self))
            = replicate (length (filter (\<lambda>p. peaks p = []) (members self)))
                (Some (PyInt (py_round m)))"
    by blast
  have near: "\<bar>of_int (py_round m) - m\<bar> \<le> 1 / 2" by (rule py_round_nearest)
  have tie: "\<bar>of_int (py_round m) - m\<bar> = 1 / 2 \<longrightarrow> even (py_round m)"
    using py_round_tie by blast
  from al me near tie has hasnt
  have "\<exists>ali_pk m md.
             alligner std (map peaks (filter (\<lambda>p. peaks p \<noteq> []) (members self))) = Inr (Some ali_pk)
           \<and> medi ali_pk = Inr m
           \<and> md = py_round m
           \<and> \<bar>of_int md - m\<bar> \<le> 1 / 2
           \<and> (\<bar>of_int md - m\<bar> = 1 / 2 \<longrightarrow> even md)
           \<and> map (\<lambda>p. map_of (pks_ali self') (acc p)) (filter (\<lambda>p. peaks p \<noteq> []) (members self))
               = map Some ali_pk
           \<and> map (\<lambda>p. map_of (pks_ali self') (acc p)) (filter (\<lambda>p. peaks p = []) (members self))
               = replicate (length (filter (\<lambda>p. peaks p = []) (members self)))
                   (Some (PyInt md))"
    by blast
  with c show ?thesis by blast
qed

lemma example_alligner: "alligner sq_dev [[4], [5]] = Inr (Some [PyInt 4, PyInt 5])"
  by (simp add: alligner_def alligner_with_def candidate_def shortest_path_def sp_run_def
      sp_loop.simps expand_def)

lemma example_members:
  "members example_complex =
     [\<lparr>acc = ''A'', inten = [0, 0, 0, 5, 0, 0], peaks = [4]\<rparr>,
      \<lparr>acc = ''B'', inten = [0, 0, 0, 0, 5, 0], peaks = [5]\<rparr>,
      \<lparr>acc = ''C'', inten = [0, 0, 0, 0, 0, 0], peaks = []\<rparr>]"
  by (simp add: example_complex_def)

lemma example_align:
  "align_peaks sq_dev median example_complex =
     Inr (example_complex
            \<lparr>pks_ali := [(''C'', PyInt 4), (''A'', PyInt 4), (''B'', PyInt 5)],
             pks := [(''A'', [PyInt 4], PyInt 4), (''B'', [PyInt 5], PyInt 5),
                     (''C'', [PyInt 4], PyInt 4)]\<rparr>,
          Some True)"
proof -
  have idx: "[0..<3] = [0, 1, 2]" by (simp add: upt_rec)
  have med: "median [PyInt 4, PyInt 5] = Inr (9 / 2)" by (simp add: median_def Let_def)
  have rd: "py_round (9 / 2) = 4" by (simp add: py_round_def Let_def)
  have pk: "pks example_complex = []" by (simp add: example_complex_def ComplexProfile_init_def)
  show ?thesis
    by (simp add: align_peaks_def Let_def get_members_def example_members idx example_alligner
        med rd dict_def dict_update_def pk)
qed

lemma tie_alligner: "alligner sq_dev [[5], [6]] = Inr (Some [PyInt 5, PyInt 6])"
  by (simp add: alligner_def alligner_with_def candidate_def shortest_path_def sp_run_def
      sp_loop.simps expand_def)

lemma tie_members:
  "members tie_complex =
     [\<lparr>acc = ''A'', inten = [0, 0, 0, 0, 5, 0], peaks = [5]\<rparr>,
      \<lparr>acc = ''B'', inten = [0, 0, 0, 0, 0, 5], peaks = [6]\<rparr>,
      \<lparr>acc = ''C'', inten = [0, 0, 0, 0, 0, 0], peaks = []\<rparr>]"
  by (simp add: tie_complex_def)

lemma tie_align:
  "align_peaks sq_dev median tie_complex =
     Inr (tie_complex
            \<lparr>pks_ali := [(''C'', PyInt 6), (''A'', PyInt 5), (''B'', PyInt 6)],
             pks := [(''A'', [PyInt 5], PyInt 5), (''B'', [PyInt 6], PyInt 6),
                     (''C'', [PyInt 6], PyInt 6)]\<rparr>,
          Some True)"
proof -
  have idx: "[0..<3] = [0, 1, 2]" by (simp add: upt_rec)
  have med: "median [PyInt 5, PyInt 6] = Inr (11 / 2)" by (simp add: median_def Let_def)
  have rd: "py_round (11 / 2) = 6" by (simp add: py_round_def Let_def)
  have pk: "pks tie_complex = []" by (simp add: tie_complex_def ComplexProfile_init_def)
  show ?thesis
    by (simp add: align_peaks_def Let_def get_members_def tie_members idx tie_alligner
        med rd dict_def dict_update_def pk)
qed

theorem align_peaks_consensus_witness:
  "distinct (get_members example_complex)
   \<and> align_peaks sq_dev median example_complex =
       Inr (example_complex
              \<lparr>pks_ali := [(''C'', PyInt 4), (''A'', PyInt 4), (''B'', PyInt 5)],
               pks := [(''A'', [PyInt 4], PyInt 4), (''B'', [PyInt 5], PyInt 5),
                       (''C'', [PyInt 4], PyInt 4)]\<rparr>,
            Some True)
   \<and> length [(''C'', PyInt 4), (''A'', PyInt 4), (''B'', PyInt (5::int))] = length (members example_complex)
   \<and> median [PyInt 4, PyInt 5] = Inr (9 / 2)
   \<and> py_round (9 / 2) = 4
   \<and> distinct (get_members tie_complex)
   \<and> align_peaks sq_dev median tie_complex =
       Inr (tie_complex
              \<lparr>pks_ali := [(''C'', PyInt 6), (''A'', PyInt 5), (''B'', PyInt 6)],
               pks := [(''A'', [PyInt 5], PyInt 5), (''B'', [PyInt 6], PyInt 6),
                       (''C'', [PyInt 6], PyInt 6)]\<rparr>,
            Some True)
   \<and> length [(''C'', PyInt 6), (''A'', PyInt 5), (''B'', PyInt (6::int))] = length (members tie_complex)
   \<and> median [PyInt 5, PyInt 6] = Inr (11 / 2)
   \<and> py_round (11 / 2) = 6
   \<and> py_round (47 / 10) = 5
   \<and> py_round (- 3 / 2) = - 2
   \<and> median [PyInt 9, PyInt 1, PyInt 2] = Inr 2"
proof -
  have h1: "distinct (get_members example_complex)"
    by (simp add: get_members_def example_members)
  have med: "median [PyInt 4, PyInt 5] = Inr (9 / 2)" by (simp add: median_def Let_def)
  have rd: "py_round (9 / 2) = 4" by (simp add: py_round_def Let_def)
  have g1: "distinct (get_members tie_complex)"
    by (simp add: get_members_def tie_members)
  have med2: "median [PyInt 5, PyInt 6] = Inr (11 / 2)" by (simp add: median_def Let_def)
  have rd2: "py_round (11 / 2) = 6" "py_round (47 / 10) = 5" "py_round (- 3 / 2) = - 2"
    by (simp_all add: py_round_def Let_def)
  have med3: "median [PyInt 9, PyInt 1, PyInt 2] = Inr 2" by (simp add: median_def Let_def)
  from align_peaks_consensus [OF h1 example_align]
  have l1: "length (pks_ali (example_complex
              \<lparr>pks_ali := [(''C'', PyInt 4), (''A'', PyInt 4), (''B'', PyInt 5)],
               pks := [(''A'', [PyInt 4], PyInt 4), (''B'', [PyInt 5], PyInt 5),
                       (''C'', [PyInt 4], PyInt 4)]\<rparr>)) = length (members example_complex)"
    by blast
  from align_peaks_consensus [OF g1 tie_align]
  have l2: "length (pks_ali (tie_complex
              \<lparr>pks_ali := [(''C'', PyInt 6), (''A'', PyInt 5), (''B'', PyInt 6)],
               pks := [(''A'', [PyInt 5], PyInt 5), (''B'', [PyInt 6], PyInt 6),
                       (''C'', [PyInt 6], PyInt 6)]\<rparr>)) = length (members tie_complex)"
    by blast
  from l1 l2 h1 example_align med rd g1 tie_align med2 rd2 med3 show ?thesis by simp
qed

text \<open>
  Claim C7. When no member of a complex has a peak, \<^verbatim>\<open>align_peaks\<close> returns \<^verbatim>\<open>None\<close>
  (having mapped every member to \<^verbatim>\<open>nan\<close>), and \<^verbatim>\<open>gen_feat\<close> returns the pair
  \<^verbatim>\<open>(None, None)\<close>, no feature row and no peak rows, without raising an error.
\<close>

theorem align_peaks_all_empty:
  assumes "\<forall>p \<in> set (members self). peaks p = []"
  shows "align_peaks std medi self =
           Inr (self\<lparr>pks_ali := dict (zip (get_members self)
                                      (replicate (length (members self)) PyNaN))\<rparr>, None)
       \<and> (\<exists>self'. gen_feat std medi stage self = Inr (self', None))"
  using align_peaks_all_missing [OF assms, of std medi]
  by (simp add: gen_feat_def gen_feat_with_def)

theorem align_peaks_all_empty_witness:
  "align_peaks sq_dev median peakless_complex =
     Inr (peakless_complex\<lparr>pks_ali := [(''A'', PyNaN), (''B'', PyNaN)]\<rparr>, None)
   \<and> (\<exists>self'. gen_feat sq_dev median (\<lambda>c. Inr (c, ())) peakless_complex = Inr (self', None))"
proof -
  have h: "\<forall>p \<in> set (members peakless_complex). peaks p = []"
    by (simp add: peakless_complex_def)
  have "dict (zip (get_members peakless_complex)
          (replicate (length (members peakless_complex)) PyNaN)) = [(''A'', PyNaN), (''B'', PyNaN)]"
    by (simp add: peakless_complex_def get_members_def dict_def dict_update_def numeral_2_eq_2)
  with align_peaks_all_empty [OF h, of sq_dev median "\<lambda>c. Inr (c, ())"] show ?thesis by simp
qed

text \<open>
  Claim C8. For a complex with fewer than 2 or more than 100 members, \<^verbatim>\<open>test_complex\<close>
  is false and \<^verbatim>\<open>gen_feat\<close> returns \<^verbatim>\<open>(None, None)\<close>, leaving the complex as it was;
  the result is the same whatever stands in the place of \<^verbatim>\<open>align_peaks\<close> and of the
  feature stage: neither is called.
\<close>

theorem gen_feat_rejects_size:
  assumes "length (members cmplx) < 2 \<or> 100 < length (members cmplx)"
  shows "\<not> test_complex cmplx
       \<and> gen_feat std medi stage cmplx = Inr (cmplx, None)
       \<and> (\<forall>ap stage'. gen_feat_with test_complex ap stage' cmplx = Inr (cmplx, None :: 'r option))"
  using assms by (auto simp: test_complex_def gen_feat_def gen_feat_with_def)

theorem gen_feat_rejects_size_witness:
  "length (members (sized_complex 1)) = 1
   \<and> length (members (sized_complex 101)) = 101
   \<and> \<not> test_complex (sized_complex 1)
   \<and> \<not> test_complex (sized_complex 101)
   \<and> gen_feat sq_dev median (\<lambda>c. Inr (c, ())) (sized_complex 1) = Inr (sized_complex 1, None)
   \<and> gen_feat sq_dev median (\<lambda>c. Inr (c, ())) (sized_complex 101) = Inr (sized_complex 101, None)"
proof -
  have l1: "length (members (sized_complex 1)) = 1" by (simp add: sized_complex_def)
  have l2: "length (members (sized_complex 101)) = 101" by (simp add: sized_complex_def)
  from l1 have h1: "length (members (sized_complex 1)) < 2 \<or> 100 < length (members (sized_complex 1))"
    by simp
  from l2 have h2: "length (members (sized_complex 101)) < 2 \<or> 100 < length (members (sized_complex 101))"
    by simp
  note r1 = gen_feat_rejects_size [OF h1, of sq_dev median "\<lambda>c. Inr (c, ())"]
  note r2 = gen_feat_rejects_size [OF h2, of sq_dev median "\<lambda>c. Inr (c, ())"]
  from r1 have a1: "\<not> test_complex (sized_complex 1)" ..
  from r1 have b1: "gen_feat sq_dev median (\<lambda>c. Inr (c, ())) (sized_complex 1) = Inr (sized_complex 1, None)"
    by (elim conjE)
  from r2 have a2: "\<not> test_complex (sized_complex 101)" ..
  from r2 have b2: "gen_feat sq_dev median (\<lambda>c. Inr (c, ())) (sized_complex 101) = Inr (sized_complex 101, None)"
    by (elim conjE)
  from l1 l2 a1 a2 b1 b2 show ?thesis by (intro conjI)
qed

text \<open>
  Claim C9, as amended. \<^verbatim>\<open>calc_peaks\<close> stores the detected peaks as a list, in the
  detector's order, each index converted with \<^verbatim>\<open>int\<close>: the list is as long as the
  detector's output, so an index that the detector reports twice is stored twice. The claim as
  stated (a set, in which duplicates collapse) fails for a detector that reports the index 3
  twice (the counterexample).
\<close>

theorem calc_peaks_list:
  "peaks (calc_peaks peak_picking self) = map py_int (peak_picking (inten self))
   \<and> length (peaks (calc_peaks peak_picking self)) = length (peak_picking (inten self))
   \<and> acc (calc_peaks peak_picking self) = acc self
   \<and> inten (calc_peaks peak_picking self) = inten self"
  by (simp add: calc_peaks_def Let_def)

theorem calc_peaks_set_counterexample:
  "peaks (calc_peaks twice_three (ProteinProfile_init ''A'' [0, 0, 0, 5, 0, 0])) = [3, 3]
   \<and> length (peaks (calc_peaks twice_three (ProteinProfile_init ''A'' [0, 0, 0, 5, 0, 0]))) = 2
   \<and> \<not> distinct (peaks (calc_peaks twice_three (ProteinProfile_init ''A'' [0, 0, 0, 5, 0, 0])))"
  by (simp add: calc_peaks_def Let_def twice_three_def ProteinProfile_init_def py_int_def)

subsection \<open>Pairwise correlation and peak width\<close>

lemma length_uniform_filter: "uniform_filter a W = Inr am \<Longrightarrow> length am = length a"
  by (auto simp: uniform_filter_def split: if_splits)

lemma length_py_slice:
  "length (py_slice xs i j) =
     nat ((if j < 0 then max (int (length xs) + j) 0 else min j (int (length xs)))
        - (if i < 0 then max (int (length xs) + i) 0 else min i (int (length xs))))"
  by (auto simp: py_slice_def Let_def)

lemma filter_upt_interval:
  "filter (\<lambda>k. a \<le> int k \<and> int k < b) [0..<n] = [nat a..<min n (nat b)]"
proof (rule sorted_distinct_set_unique)
  show "sorted (filter (\<lambda>k. a \<le> int k \<and> int k < b) [0..<n])" by (simp add: sorted_wrt_filter)
  show "set (filter (\<lambda>k. a \<le> int k \<and> int k < b) [0..<n]) = set [nat a..<min n (nat b)]" by auto
qed simp_all

lemma take_drop_map_nth:
  assumes "l + m \<le> length xs"
  shows "take m (drop l xs) = map (\<lambda>k. xs ! k) [l..<l + m]"
proof (rule nth_equalityI)
  show "length (take m (drop l xs)) = length (map (\<lambda>k. xs ! k) [l..<l + m])" using assms by simp
next
  fix i assume "i < length (take m (drop l xs))"
  then show "take m (drop l xs) ! i = map (\<lambda>k. xs ! k) [l..<l + m] ! i" using assms by simp
qed

lemma centered_window_eq:
  "centered_window xs peak q = map (\<lambda>k. xs ! k) [nat (peak - q)..<min (length xs) (nat (peak + q))]"
  by (simp add: centered_window_def filter_upt_interval)

lemma py_slice_centered:
  assumes "0 \<le> q" "q \<le> peak"
  shows "py_slice xs (peak - q) (peak + q) = centered_window xs peak q"
proof (cases "peak - q \<le> int (length xs)")
  case True
  define l where "l = nat (peak - q)"
  define m where "m = min (length xs) (nat (peak + q)) - l"
  from assms True have l: "l \<le> min (length xs) (nat (peak + q))"
    unfolding l_def by (simp add: nat_le_iff nat_mono)
  then have lm: "l + m = min (length xs) (nat (peak + q))" by (simp add: m_def)
  then have le: "l + m \<le> length xs" by simp
  have lo: "min (peak - q) (int (length xs)) = int l" using assms True by (simp add: l_def)
  have hi: "min (peak + q) (int (length xs)) = int (min (length xs) (nat (peak + q)))"
    using assms by (auto simp: min_def nat_le_iff le_nat_iff)
  have df: "nat (int (min (length xs) (nat (peak + q))) - int l) = m"
    unfolding m_def by arith
  have "py_slice xs (peak - q) (peak + q) =
      take (nat (min (peak + q) (int (length xs)) - min (peak - q) (int (length xs))))
        (drop (nat (min (peak - q) (int (length xs)))) xs)"
    using assms unfolding py_slice_def Let_def by simp
  also have "\<dots> = take m (drop l xs)"
    by (simp only: lo hi df nat_int)
  also have "\<dots> = map (\<lambda>k. xs ! k) [l..<l + m]" using le by (rule take_drop_map_nth)
  finally have "py_slice xs (peak - q) (peak + q) = map (\<lambda>k. xs ! k) [l..<l + m]" .
  then have "py_slice xs (peak - q) (peak + q)
      = map (\<lambda>k. xs ! k) [l..<min (length xs) (nat (peak + q))]" by (simp only: lm)
  then show ?thesis by (simp only: centered_window_eq l_def)
next
  case False
  then have "py_slice xs (peak - q) (peak + q) = []"
    using assms unfolding py_slice_def Let_def by (simp add: min_def)
  with False show ?thesis by (simp add: centered_window_eq)
qed

lemma py_slice_low_peak:
  assumes "0 \<le> peak" "peak < q" "2 * q \<le> int (length xs)"
  shows "py_slice xs (peak - q) (peak + q) = []"
  using assms unfolding py_slice_def Let_def by (simp add: min_def max_def)

lemma centered_window_low_peak:
  assumes "peak < q" "0 < peak + q"
  shows "centered_window xs peak q = take (nat (peak + q)) xs"
proof -
  from assms have "nat (peak - q) = 0" by simp
  then have "centered_window xs peak q = map (\<lambda>k. xs ! k) [0..<0 + min (length xs) (nat (peak + q))]"
    by (simp add: centered_window_eq)
  also have "\<dots> = take (min (length xs) (nat (peak + q))) (drop 0 xs)"
    by (rule take_drop_map_nth [symmetric]) simp
  finally show ?thesis by (simp add: min_def)
qed

lemma window_bounds:
  fixes W :: int
  assumes "3 \<le> W"
  shows "0 \<le> W div 2" "- W div 2 + 1 < 0" "W div 2 - (- W div 2 + 1) = W - 1"
proof -
  have "\<exists>k. W = 2 * k \<or> W = 2 * k + 1" by presburger
  then obtain k where k: "W = 2 * k \<or> W = 2 * k + 1" ..
  then show "0 \<le> W div 2" "- W div 2 + 1 < 0" "W div 2 - (- W div 2 + 1) = W - 1"
    using assms by auto
qed

lemma py_slice_window_72:
  assumes "length a = 72" "3 \<le> W" "W \<le> 73"
  shows "int (length (py_slice a (W div 2) (- W div 2 + 1))) = 73 - W"
proof -
  note b = window_bounds [OF assms(2)]
  have "W div 2 \<le> 72" using assms(3) by simp
  moreover have "0 \<le> 72 + (- W div 2 + 1)" using b(3) assms(3) calculation by linarith
  ultimately show ?thesis
    using b assms by (simp add: length_py_slice min_def max_def) linarith
qed

lemma corr_vector_shape:
  assumes "1 \<le> W" "length b = length a"
  shows "\<exists>valid. corr_vector a b W = Inr (valid @ replicate 9 NaN) \<and>
           length valid = length (py_slice a (W div 2) (- W div 2 + 1))"
proof -
  from assms(1) obtain am bm where am: "uniform_filter a W = Inr am" and bm: "uniform_filter b W = Inr bm"
    by (auto simp: uniform_filter_def)
  from am have "length am = length a" by (rule length_uniform_filter)
  then have "length (py_slice am (W div 2) (- W div 2 + 1)) = length (py_slice a (W div 2) (- W div 2 + 1))"
    by (simp only: length_py_slice)
  with am bm assms(2) show ?thesis by (simp add: corr_vector_def Let_def)
qed

text \<open>
  Claim C5 (what the code does). For two intensity vectors of length 72 and a window length
  \<open>W\<close> from 3 to 73, \<^verbatim>\<open>calc_corr\<close> appends a vector of \<open>73 - W\<close> correlation values
  followed by 9 \<^verbatim>\<open>nan\<close>: its length is \<open>82 - W\<close>, which is 72 for the default
  \<open>W = 10\<close> and for no other window length. With \<open>W = 5\<close> the vector has 77 entries (the
  witness).
\<close>

theorem calc_corr_length:
  assumes "length (inten (fst pairs)) = 72" and "length (inten (snd pairs)) = 72"
    and "3 \<le> W" and "W \<le> 73"
  shows "\<exists>valid. calc_corr self pairs W = Inr (self\<lparr>cor := cor self @ [valid @ replicate 9 NaN]\<rparr>)
           \<and> int (length valid) = 73 - W
           \<and> int (length (valid @ replicate 9 NaN)) = 82 - W
           \<and> (length (valid @ replicate 9 NaN) = 72 \<longleftrightarrow> W = 10)"
proof -
  from assms have "1 \<le> W" "length (inten (snd pairs)) = length (inten (fst pairs))" by simp_all
  from corr_vector_shape [OF this] obtain valid where
    v: "corr_vector (inten (fst pairs)) (inten (snd pairs)) W = Inr (valid @ replicate 9 NaN)"
       "length valid = length (py_slice (inten (fst pairs)) (W div 2) (- W div 2 + 1))"
    by blast
  have "int (length (py_slice (inten (fst pairs)) (W div 2) (- W div 2 + 1))) = 73 - W"
    using assms(1,3,4) by (rule py_slice_window_72)
  with v(2) have l: "int (length valid) = 73 - W" by simp
  then have "int (length (valid @ replicate 9 NaN)) = 82 - W" by simp
  moreover from this have "length (valid @ replicate 9 NaN) = 72 \<longleftrightarrow> W = 10" by linarith
  moreover from v(1) have "calc_corr self pairs W = Inr (self\<lparr>cor := cor self @ [valid @ replicate 9 NaN]\<rparr>)"
    by (simp add: calc_corr_def)
  ultimately show ?thesis using l by blast
qed

theorem calc_corr_length_witness:
  "length fractions = 72
   \<and> (\<exists>valid. calc_corr (ComplexProfile_init ''E'')
          (ProteinProfile_init ''A'' fractions, ProteinProfile_init ''B'' fractions) 5
        = Inr ((ComplexProfile_init ''E'')\<lparr>cor := [valid @ replicate 9 NaN]\<rparr>)
        \<and> length valid = 68 \<and> length (valid @ replicate 9 NaN) = 77)
   \<and> (\<exists>valid. calc_corr (ComplexProfile_init ''E'')
          (ProteinProfile_init ''A'' fractions, ProteinProfile_init ''B'' fractions) 10
        = Inr ((ComplexProfile_init ''E'')\<lparr>cor := [valid @ replicate 9 NaN]\<rparr>)
        \<and> length valid = 63 \<and> length (valid @ replicate 9 NaN) = 72)"
proof -
  have l: "length fractions = 72" by (simp add: fractions_def)
  have a: "length (inten (fst (ProteinProfile_init ''A'' fractions, ProteinProfile_init ''B'' fractions))) = 72"
    by (simp add: ProteinProfile_init_def l)
  have b: "length (inten (snd (ProteinProfile_init ''A'' fractions, ProteinProfile_init ''B'' fractions))) = 72"
    by (simp add: ProteinProfile_init_def l)
  have c: "cor (ComplexProfile_init ''E'') = []" by (simp add: ComplexProfile_init_def)
  from calc_corr_length [OF a b, of 5 "ComplexProfile_init ''E''"]
  obtain v5 where v5: "calc_corr (ComplexProfile_init ''E'')
          (ProteinProfile_init ''A'' fractions, ProteinProfile_init ''B'' fractions) 5
        = Inr ((ComplexProfile_init ''E'')\<lparr>cor := [v5 @ replicate 9 NaN]\<rparr>)"
      "int (length v5) = 68"
    by (auto simp: c)
  from calc_corr_length [OF a b, of 10 "ComplexProfile_init ''E''"]
  obtain v10 where v10: "calc_corr (ComplexProfile_init ''E'')
          (ProteinProfile_init ''A'' fractions, ProteinProfile_init ''B'' fractions) 10
        = Inr ((ComplexProfile_init ''E'')\<lparr>cor := [v10 @ replicate 9 NaN]\<rparr>)"
      "int (length v10) = 63"
    by (auto simp: c)
  from v5 have e5: "\<exists>valid. calc_corr (ComplexProfile_init ''E'')
          (ProteinProfile_init ''A'' fractions, ProteinProfile_init ''B'' fractions) 5
        = Inr ((ComplexProfile_init ''E'')\<lparr>cor := [valid @ replicate 9 NaN]\<rparr>)
        \<and> length valid = 68 \<and> length (valid @ replicate 9 NaN) = 77"
    by (intro exI [of _ v5]) simp
  from v10 have e10: "\<exists>valid. calc_corr (ComplexProfile_init ''E'')
          (ProteinProfile_init ''A'' fractions, ProteinProfile_init ''B'' fractions) 10
        = Inr ((ComplexProfile_init ''E'')\<lparr>cor := [valid @ replicate 9 NaN]\<rparr>)
        \<and> length valid = 63 \<and> length (valid @ replicate 9 NaN) = 72"
    by (intro exI [of _ v10]) simp
  from l e5 e10 show ?thesis by (intro conjI)
qed

text \<open>
  Claim C6 (what the code does). For a member whose consensus peak is at least 5, the
  intensities that \<^verbatim>\<open>calc_width\<close> hands to \<^verbatim>\<open>st.fwhm\<close> are those of the window
  \<open>[peak - 5, peak + 5)\<close>. For a consensus peak from 0 to 4 (and a vector of at least 10
  fractions) the lower bound of the slice is negative and counts from the end of the vector:
  the slice is empty, whereas the window \<open>[peak - 5, peak + 5)\<close> holds the first
  \<open>peak + 5\<close> intensities. In the witness the width of a complex with consensus peaks 3 and
  40 is the mean of the measures of an empty window and of a window of 10 fractions.
\<close>

theorem calc_width_window:
  assumes "map_of ali (acc prot) = Some (PyInt peak)" and "0 \<le> peak"
    and "10 \<le> length (inten prot)"
  shows "(5 \<le> peak \<longrightarrow> peak_window 5 ali prot = Inr (centered_window (inten prot) peak 5))
       \<and> (peak < 5 \<longrightarrow> peak_window 5 ali prot = Inr []
                      \<and> centered_window (inten prot) peak 5 = take (nat (peak + 5)) (inten prot)
                      \<and> length (centered_window (inten prot) peak 5) = nat (peak + 5))"
proof (intro conjI impI)
  assume "5 \<le> peak"
  then have "py_slice (inten prot) (peak - 5) (peak + 5) = centered_window (inten prot) peak 5"
    by (intro py_slice_centered) simp_all
  with assms(1) show "peak_window 5 ali prot = Inr (centered_window (inten prot) peak 5)"
    by (simp add: peak_window_def int_of_pyval_def)
next
  assume lt: "peak < 5"
  with assms have "py_slice (inten prot) (peak - 5) (peak + 5) = []"
    by (intro py_slice_low_peak) simp_all
  with assms(1) show "peak_window 5 ali prot = Inr []"
    by (simp add: peak_window_def int_of_pyval_def)
  from lt assms(2) show cw: "centered_window (inten prot) peak 5 = take (nat (peak + 5)) (inten prot)"
    by (intro centered_window_low_peak) simp_all
  from lt assms(2,3) show "length (centered_window (inten prot) peak 5) = nat (peak + 5)"
    unfolding cw by simp
qed

theorem calc_width_window_witness:
  "peak_window 5 (pks_ali early_complex) \<lparr>acc = ''A'', inten = fractions, peaks = [3]\<rparr> = Inr []
   \<and> centered_window fractions 3 5 = map of_int [1..8]
   \<and> length (centered_window fractions 40 5) = 10
   \<and> peak_window 5 (pks_ali early_complex) \<lparr>acc = ''B'', inten = fractions, peaks = [40]\<rparr>
       = Inr (centered_window fractions 40 5)
   \<and> calc_width window_length early_complex = Inr (early_complex\<lparr>width := Some (Flt 5)\<rparr>)"
proof -
  have l: "length fractions = 72" by (simp add: fractions_def)
  have ali: "pks_ali early_complex = [(''A'', PyInt 3), (''B'', PyInt 40)]"
    by (simp add: early_complex_def)
  have ms: "members early_complex = [\<lparr>acc = ''A'', inten = fractions, peaks = [3]\<rparr>,
      \<lparr>acc = ''B'', inten = fractions, peaks = [40]\<rparr>]"
    by (simp add: early_complex_def)
  have mA: "map_of (pks_ali early_complex) (acc \<lparr>acc = ''A'', inten = fractions, peaks = [3]\<rparr>) = Some (PyInt 3)"
    by (simp add: ali)
  have mB: "map_of (pks_ali early_complex) (acc \<lparr>acc = ''B'', inten = fractions, peaks = [40]\<rparr>) = Some (PyInt 40)"
    by (simp add: ali)
  have lenA: "10 \<le> length (inten \<lparr>acc = ''A'', inten = fractions, peaks = [3]\<rparr>)" by (simp add: l)
  have lenB: "10 \<le> length (inten \<lparr>acc = ''B'', inten = fractions, peaks = [40]\<rparr>)" by (simp add: l)
  from calc_width_window [OF mA _ lenA]
  have wA: "peak_window 5 (pks_ali early_complex) \<lparr>acc = ''A'', inten = fractions, peaks = [3]\<rparr> = Inr []"
    and cA: "centered_window fractions 3 5 = take (nat (3 + 5)) fractions" by simp_all
  from calc_width_window [OF mB _ lenB]
  have wB: "peak_window 5 (pks_ali early_complex) \<lparr>acc = ''B'', inten = fractions, peaks = [40]\<rparr>
      = Inr (centered_window fractions 40 5)" by simp
  have "[1..72] = [1..8] @ [9..72]" using upto_split2 [of 1 8 72] by simp
  then have "take 8 fractions = map of_int [1..8]" by (simp add: fractions_def)
  with cA have c8: "centered_window fractions 3 5 = map of_int [1..8]" by simp
  have c40: "length (centered_window fractions 40 5) = 10" by (simp add: centered_window_eq l)
  have "calc_width window_length early_complex = Inr (early_complex\<lparr>width := Some (Flt 5)\<rparr>)"
    by (simp add: calc_width_def ms wA wB window_length_def c40 np_mean_def)
  with wA wB c8 c40 show ?thesis by (intro conjI)
qed

end
